theory Spec2Isabelle
  imports Complex_Main
begin

section \<open>The chat server of \<^verbatim>\<open>src/server.js\<close> (the variant with \<^verbatim>\<open>cleanupUserConnections\<close>)\<close>

text \<open>
  The file holds three variants of the server; the one modelled here is the second
  (lines 232 to 608), which has the typing indicator, the heartbeat and
  \<^verbatim>\<open>cleanupUserConnections\<close>. Every handler runs to completion on Node's single
  event loop, so a handler is a function from the store to the store.

  Conventions of the model.
  \<^item> A JavaScript string is a \<open>string\<close>, one \<open>char\<close> per UTF-16 code unit; the model
    covers the code units below 256.
  \<^item> A WebSocket object is a number (its identity); what \<^verbatim>\<open>ws.readyState\<close> reports is a
    field of the state that the handlers only read.
  \<^item> \<^verbatim>\<open>Date.now()\<close> is an argument of each handler.
  \<^item> Every call of \<^verbatim>\<open>ws.send\<close> and \<^verbatim>\<open>ws.close\<close> is appended to the field \<open>wire\<close>, in
    program order. The heartbeat timer and the console output are left out.
  \<^item> \<^verbatim>\<open>JSON.parse\<close> and the coercion of the relational operator are builtins of the
    runtime, not code of the repository: they are the two fields of \<open>runtime\<close>.
  \<^item> The pass that calls \<^verbatim>\<open>ws.terminate()\<close> on the sockets that are not open and the
    shutdown on a signal write none of the three dictionaries; they reach the store
    through the close handler only, and are not modelled.
\<close>

subsection \<open>Values\<close>

datatype ready_state = CONNECTING | OPEN | CLOSING | CLOSED

type_synonym conn = nat

text \<open>A number that \<^verbatim>\<open>JSON.parse\<close> returns: a finite double, as the rational it denotes,
  or an infinity (the value of \<^verbatim>\<open>1e999\<close>).\<close>

datatype jsnum = Finite rat | PlusInfinity | MinusInfinity

text \<open>A value that \<^verbatim>\<open>JSON.parse\<close> returns. The properties of an object are an association
  list, read with \<open>map_of\<close>. The value \<^verbatim>\<open>undefined\<close> is \<open>None\<close> of \<open>json option\<close>.\<close>

datatype json =
    JNull
  | JBool bool
  | JNum jsnum
  | JStr string
  | JArr "json list"
  | JObj "(string \<times> json) list"

datatype exn = TypeError

record runtime =
  JSON_parse :: "string \<Rightarrow> json option"
  coerce_gt_500 :: "json \<Rightarrow> exn + bool"

text \<open>\<open>JSON_parse rt s = None\<close> is the \<^verbatim>\<open>SyntaxError\<close> of \<^verbatim>\<open>JSON.parse(s)\<close>.
  \<open>coerce_gt_500 rt v\<close> is \<^verbatim>\<open>v > 500\<close> for a string, an array or an object \<open>v\<close>, where the
  runtime first converts \<open>v\<close> to a number (and throws when it cannot).\<close>

text \<open>A buffered message \<^verbatim>\<open>{ nick, text, timestamp }\<close> (\<open>text\<close> is a keyword of Isabelle, so
  the fields carry the prefix \<open>m_\<close>).\<close>

record message =
  m_nick :: string
  m_text :: json
  m_timestamp :: nat

record client =
  ws :: conn
  nick :: string
  roomId :: string
  joinedAt :: nat

text \<open>The wire messages, server to client, before \<^verbatim>\<open>JSON.stringify\<close>.\<close>

datatype event =
    Connected string
  | History "message list"
  | UserList "string list"
  | Typing "string list"
  | System string nat
  | Message string json nat
  | Error string

datatype effect = Send conn event | Close conn nat string

text \<open>The three global dictionaries, the transport's view of the sockets, and the log.
  A \<^verbatim>\<open>Set\<close> of \<open>typingUsers\<close> is the list of its elements in insertion order.\<close>

record state =
  rooms :: "string \<rightharpoonup> client list"
  messageBuffers :: "string \<rightharpoonup> message list"
  typingUsers :: "string \<rightharpoonup> string list"
  readyState :: "conn \<Rightarrow> ready_state"
  wire :: "effect list"

definition MAX_MESSAGES :: nat where
  "MAX_MESSAGES = 50"

definition initial :: "(conn \<Rightarrow> ready_state) \<Rightarrow> state" where
  "initial rs = \<lparr>rooms = Map.empty, messageBuffers = Map.empty, typingUsers = Map.empty,
     readyState = rs, wire = []\<rparr>"

text \<open>The dictionaries are plain objects, so a key that names a property of
  \<^verbatim>\<open>Object.prototype\<close> reads the inherited value where the object has no own property.
  No handler ever writes such a key (see \<open>onConnection\<close>), so everywhere else a lookup
  reads own properties only.\<close>

definition Object_prototype_keys :: "string list" where
  "Object_prototype_keys =
     [''constructor'', ''__defineGetter__'', ''__defineSetter__'', ''hasOwnProperty'',
      ''__lookupGetter__'', ''__lookupSetter__'', ''isPrototypeOf'',
      ''propertyIsEnumerable'', ''toString'', ''valueOf'', ''__proto__'',
      ''toLocaleString'']"

subsection \<open>Builtins the handlers use\<close>

text \<open>\<^verbatim>\<open>String.prototype.trim\<close>: the white space and line terminators below code unit 256.\<close>

definition is_white :: "char \<Rightarrow> bool" where
  "is_white c = (c \<in> set [CHR 0x09, CHR 0x0A, CHR 0x0B, CHR 0x0C, CHR 0x0D, CHR 0x20, CHR 0xA0])"

definition trim :: "string \<Rightarrow> string" where
  "trim s = rev (dropWhile is_white (rev (dropWhile is_white s)))"

text \<open>\<^verbatim>\<open>Set.prototype.add\<close> and \<^verbatim>\<open>Set.prototype.delete\<close> on the list of elements.\<close>

definition set_add :: "string \<Rightarrow> string list \<Rightarrow> string list" where
  "set_add x xs = (if x \<in> set xs then xs else xs @ [x])"

definition set_delete :: "string \<Rightarrow> string list \<Rightarrow> string list" where
  "set_delete x xs = removeAll x xs"

text \<open>\<^verbatim>\<open>v.key\<close>: it throws on \<^verbatim>\<open>null\<close>; a boolean, a number, a string and an array have none
  of the properties \<^verbatim>\<open>type\<close>, \<^verbatim>\<open>isTyping\<close> and \<^verbatim>\<open>text\<close>; an object has its own ones.\<close>

fun get_prop :: "json \<Rightarrow> string \<Rightarrow> exn + json option" where
  "get_prop JNull k = Inl TypeError"
| "get_prop (JObj kvs) k = Inr (map_of kvs k)"
| "get_prop v k = Inr None"

text \<open>The truth value of \<^verbatim>\<open>messageObj.isTyping\<close> in \<^verbatim>\<open>if (isTyping)\<close>.\<close>

fun truthy :: "json option \<Rightarrow> bool" where
  "truthy None = False"
| "truthy (Some JNull) = False"
| "truthy (Some (JBool b)) = b"
| "truthy (Some (JNum n)) = (n \<noteq> Finite 0)"
| "truthy (Some (JStr s)) = (s \<noteq> [])"
| "truthy (Some (JArr xs)) = True"
| "truthy (Some (JObj kvs)) = True"

text \<open>\<^verbatim>\<open>v > 500\<close> for the value \<open>v\<close> of a property \<^verbatim>\<open>length\<close>.\<close>

fun gt_500 :: "runtime \<Rightarrow> json option \<Rightarrow> exn + bool" where
  "gt_500 rt None = Inr False"
| "gt_500 rt (Some JNull) = Inr False"
| "gt_500 rt (Some (JBool b)) = Inr False"
| "gt_500 rt (Some (JNum (Finite q))) = Inr (500 < q)"
| "gt_500 rt (Some (JNum PlusInfinity)) = Inr True"
| "gt_500 rt (Some (JNum MinusInfinity)) = Inr False"
| "gt_500 rt (Some v) = coerce_gt_500 rt v"

text \<open>\<^verbatim>\<open>text.length > 500\<close>: it throws when \<open>text\<close> is \<^verbatim>\<open>undefined\<close> or \<^verbatim>\<open>null\<close>; a string
  and an array have their length; a boolean and a number have none
  (\<^verbatim>\<open>undefined > 500\<close> is false); an object has the property it was parsed with.\<close>

fun length_gt_500 :: "runtime \<Rightarrow> json option \<Rightarrow> exn + bool" where
  "length_gt_500 rt None = Inl TypeError"
| "length_gt_500 rt (Some JNull) = Inl TypeError"
| "length_gt_500 rt (Some (JStr s)) = Inr (500 < length s)"
| "length_gt_500 rt (Some (JArr xs)) = Inr (500 < length xs)"
| "length_gt_500 rt (Some (JObj kvs)) = gt_500 rt (map_of kvs ''length'')"
| "length_gt_500 rt (Some v) = Inr False"

text \<open>
  The conversion of \<open>text\<close> to a string in the template literal of line 443, which is
  evaluated before \<^verbatim>\<open>log\<close> is called. It throws a \<^verbatim>\<open>TypeError\<close> for an object that was
  parsed with a property \<^verbatim>\<open>toString\<close> (the property is no function, and the inherited
  \<^verbatim>\<open>valueOf\<close> returns the object), and for an array one of whose elements it throws for
  (\<^verbatim>\<open>Array.prototype.join\<close> converts every element but \<^verbatim>\<open>null\<close>); every other value has
  a string.
\<close>

fun toString_throws :: "json \<Rightarrow> bool" where
  "toString_throws (JObj kvs) = (map_of kvs ''toString'' \<noteq> None)"
| "toString_throws (JArr xs) = list_ex toString_throws xs"
| "toString_throws v = False"

subsection \<open>Sending\<close>

definition send :: "state \<Rightarrow> conn \<Rightarrow> event \<Rightarrow> state" where
  "send st w ev = st\<lparr>wire := wire st @ [Send w ev]\<rparr>"

definition close :: "state \<Rightarrow> conn \<Rightarrow> nat \<Rightarrow> string \<Rightarrow> state" where
  "close st w code reason = st\<lparr>wire := wire st @ [Close w code reason]\<rparr>"

text \<open>The loop every broadcast ends with:
  \<^verbatim>\<open>forEach((client) => { if (client.ws.readyState === WebSocket.OPEN) client.ws.send(m) })\<close>.\<close>

definition recipients :: "state \<Rightarrow> client list \<Rightarrow> conn list" where
  "recipients st cs = map ws (filter (\<lambda>c. readyState st (ws c) = OPEN) cs)"

definition forEach_send :: "state \<Rightarrow> client list \<Rightarrow> event \<Rightarrow> state" where
  "forEach_send st cs ev = st\<lparr>wire := wire st @ map (\<lambda>w. Send w ev) (recipients st cs)\<rparr>"

definition broadcastUserList :: "state \<Rightarrow> string \<Rightarrow> state" where
  "broadcastUserList st r =
     (case rooms st r of
        None \<Rightarrow> st
      | Some cs \<Rightarrow> forEach_send st cs (UserList (map nick cs)))"

definition broadcastTypingStatus :: "state \<Rightarrow> string \<Rightarrow> string \<Rightarrow> bool \<Rightarrow> state" where
  "broadcastTypingStatus st r typingUser isTyping =
     (let tu = (case typingUsers st r of None \<Rightarrow> [] | Some s \<Rightarrow> s);
          tu' = (if isTyping then set_add typingUser tu else set_delete typingUser tu);
          st1 = st\<lparr>typingUsers := (typingUsers st)(r \<mapsto> tu')\<rparr>
      in case rooms st1 r of
           None \<Rightarrow> st1
         | Some cs \<Rightarrow> forEach_send st1 cs (Typing tu'))"

definition broadcastSystemMessage :: "state \<Rightarrow> string \<Rightarrow> string \<Rightarrow> nat \<Rightarrow> state" where
  "broadcastSystemMessage st r msg now =
     (case rooms st r of
        None \<Rightarrow> st
      | Some cs \<Rightarrow> forEach_send st cs (System msg now))"

definition cleanupUserConnections :: "state \<Rightarrow> string \<Rightarrow> string \<Rightarrow> state" where
  "cleanupUserConnections st r n =
     (case rooms st r of
        None \<Rightarrow> st
      | Some cs \<Rightarrow>
          st\<lparr>rooms := (rooms st)(r \<mapsto>
            filter (\<lambda>c. \<not> (nick c = n \<and> readyState st (ws c) \<noteq> OPEN)) cs)\<rparr>)"

subsection \<open>The history buffer\<close>

text \<open>\<^verbatim>\<open>messageBuffers[roomId].push(message); if (length > MAX_MESSAGES) shift()\<close>.\<close>

definition push_message :: "message list \<Rightarrow> message \<Rightarrow> message list" where
  "push_message h m =
     (let h1 = h @ [m] in if MAX_MESSAGES < length h1 then tl h1 else h1)"

subsection \<open>\<^verbatim>\<open>wss.on("connection")\<close>\<close>

text \<open>
  \<open>room_param\<close> and \<open>nick_param\<close> are what \<^verbatim>\<open>url.searchParams.get\<close> returns (\<open>None\<close> is
  \<^verbatim>\<open>null\<close>); \<open>t_join\<close> and \<open>t_sys\<close> are the two readings of the clock. The result is \<open>Inl\<close>
  when the handler throws: for a room that names a property of \<^verbatim>\<open>Object.prototype\<close>,
  \<^verbatim>\<open>!rooms[roomId]\<close> is false on the inherited value, the room is not initialised, and
  \<^verbatim>\<open>rooms[roomId].filter\<close> in \<^verbatim>\<open>cleanupUserConnections\<close> is not a function. Nothing has
  been written or sent at that point, and nothing catches the exception.
\<close>

definition onConnection ::
  "state \<Rightarrow> conn \<Rightarrow> string option \<Rightarrow> string option \<Rightarrow> nat \<Rightarrow> nat \<Rightarrow> exn + state" where
  "onConnection st w room_param nick_param t_join t_sys =
     (case (room_param, nick_param) of
        (Some r, Some n) \<Rightarrow>
          if r = [] \<or> n = [] then Inr (close st w 1008 ''Room and nick are required'')
          else if r \<in> set Object_prototype_keys then Inl TypeError
          else
            let st1 = (case rooms st r of
                         None \<Rightarrow> st\<lparr>rooms := (rooms st)(r \<mapsto> []),
                                     messageBuffers := (messageBuffers st)(r \<mapsto> []),
                                     typingUsers := (typingUsers st)(r \<mapsto> [])\<rparr>
                       | Some cs \<Rightarrow> st);
                st2 = cleanupUserConnections st1 r n
            in (case rooms st2 r of
                  None \<Rightarrow> Inl TypeError
                | Some cs \<Rightarrow>
                    (case find (\<lambda>c. nick c = n \<and> readyState st2 (ws c) = OPEN) cs of
                       Some existingUser \<Rightarrow>
                         Inr (close (send st2 w (Error ''Nickname already taken in this room''))
                                w 1008 ''Nickname already taken'')
                     | None \<Rightarrow>
                         let clientInfo = \<lparr>ws = w, nick = n, roomId = r, joinedAt = t_join\<rparr>;
                             st3 = st2\<lparr>rooms := (rooms st2)(r \<mapsto> cs @ [clientInfo])\<rparr>;
                             history = (case messageBuffers st3 r of None \<Rightarrow> [] | Some h \<Rightarrow> h);
                             st4 = send st3 w (History history);
                             st5 = broadcastUserList st4 r;
                             st6 = send st5 w
                                     (Typing (case typingUsers st5 r of None \<Rightarrow> [] | Some s \<Rightarrow> s));
                             st7 = broadcastSystemMessage st6 r (n @ '' joined the room'') t_sys
                         in Inr (send st7 w (Connected ''Successfully connected to the room''))))
      | _ \<Rightarrow> Inr (close st w 1008 ''Room and nick are required''))"

subsection \<open>\<^verbatim>\<open>ws.on("message")\<close>\<close>

text \<open>
  Lines 443 to 473, reached once the length check has passed with the value \<open>t\<close> of
  \<^verbatim>\<open>text\<close>: the argument of \<^verbatim>\<open>log\<close> is built, which converts \<open>t\<close> to a string, then the
  sender leaves the typing set, the message is buffered and broadcast. The result pairs
  the exception thrown, if any, with the store at that point: what was written before a
  throw stays written (\<^verbatim>\<open>messageBuffers[roomId].push\<close> and \<^verbatim>\<open>rooms[roomId].forEach\<close> throw
  when the room is gone).
\<close>

definition acceptMessage ::
  "state \<Rightarrow> string \<Rightarrow> string \<Rightarrow> json \<Rightarrow> nat \<Rightarrow> exn option \<times> state" where
  "acceptMessage st r n t now =
     (if toString_throws t then (Some TypeError, st)
      else
        let st1 = (case typingUsers st r of
                     None \<Rightarrow> st
                   | Some s \<Rightarrow>
                       broadcastTypingStatus
                         (st\<lparr>typingUsers := (typingUsers st)(r \<mapsto> set_delete n s)\<rparr>) r n False);
            msg = \<lparr>m_nick = n, m_text = t, m_timestamp = now\<rparr>
        in case messageBuffers st1 r of
             None \<Rightarrow> (Some TypeError, st1)
           | Some h \<Rightarrow>
               let st2 = st1\<lparr>messageBuffers := (messageBuffers st1)(r \<mapsto> push_message h msg)\<rparr>
               in (case rooms st2 r of
                     None \<Rightarrow> (Some TypeError, st2)
                   | Some cs \<Rightarrow> (None, forEach_send st2 cs (Message n t now))))"

text \<open>
  The body of the \<^verbatim>\<open>try\<close> block, for the connection \<open>w\<close> that joined room \<open>r\<close> as \<open>n\<close>;
  \<open>data\<close> is \<^verbatim>\<open>data.toString()\<close>.
\<close>

definition onMessage_try ::
  "runtime \<Rightarrow> state \<Rightarrow> conn \<Rightarrow> string \<Rightarrow> string \<Rightarrow> string \<Rightarrow> nat \<Rightarrow> exn option \<times> state" where
  "onMessage_try rt st w r n data now =
     (let rawData = trim data in
      if rawData = [] then (None, st)
      else
        let messageObj = (case JSON_parse rt rawData of
                            Some v \<Rightarrow> v
                          | None \<Rightarrow> JObj [(''type'', JStr ''message''), (''text'', JStr rawData)])
        in case get_prop messageObj ''type'' of
             Inl e \<Rightarrow> (Some e, st)
           | Inr ty \<Rightarrow>
               if ty = Some (JStr ''typing'') then
                 (case get_prop messageObj ''isTyping'' of
                    Inl e \<Rightarrow> (Some e, st)
                  | Inr b \<Rightarrow> (None, broadcastTypingStatus st r n (truthy b)))
               else if ty = Some (JStr ''message'') then
                 (case get_prop messageObj ''text'' of
                    Inl e \<Rightarrow> (Some e, st)
                  | Inr txt \<Rightarrow>
                      (case length_gt_500 rt txt of
                         Inl e \<Rightarrow> (Some e, st)
                       | Inr True \<Rightarrow>
                           (None, send st w (Error ''Message too long (max 500 characters)''))
                       | Inr False \<Rightarrow>
                           (case txt of
                              None \<Rightarrow> (Some TypeError, st)
                            | Some t \<Rightarrow> acceptMessage st r n t now)))
               else (None, st))"

text \<open>The handler: the \<^verbatim>\<open>catch\<close> block answers any exception with one \<^verbatim>\<open>error\<close> event.\<close>

definition onMessage ::
  "runtime \<Rightarrow> state \<Rightarrow> conn \<Rightarrow> string \<Rightarrow> string \<Rightarrow> string \<Rightarrow> nat \<Rightarrow> state" where
  "onMessage rt st w r n data now =
     (case onMessage_try rt st w r n data now of
        (None, st') \<Rightarrow> st'
      | (Some e, st') \<Rightarrow> send st' w (Error ''Error processing message''))"

subsection \<open>\<^verbatim>\<open>ws.on("close")\<close>\<close>

definition onClose :: "state \<Rightarrow> conn \<Rightarrow> string \<Rightarrow> string \<Rightarrow> nat \<Rightarrow> state" where
  "onClose st w r n now =
     (case rooms st r of
        None \<Rightarrow> st
      | Some cs \<Rightarrow>
          let cs' = filter (\<lambda>c. ws c \<noteq> w) cs;
              st1 = st\<lparr>rooms := (rooms st)(r \<mapsto> cs')\<rparr>;
              st2 = (case typingUsers st1 r of
                       None \<Rightarrow> st1
                     | Some s \<Rightarrow>
                         broadcastTypingStatus
                           (st1\<lparr>typingUsers := (typingUsers st1)(r \<mapsto> set_delete n s)\<rparr>)
                           r n False);
              st3 = (if 0 < length cs'
                     then broadcastUserList
                            (broadcastSystemMessage st2 r (n @ '' left the room'') now) r
                     else st2)
          in if length cs' = 0
             then st3\<lparr>rooms := (rooms st3)(r := None),
                      messageBuffers := (messageBuffers st3)(r := None),
                      typingUsers := (typingUsers st3)(r := None)\<rparr>
             else st3)"

subsection \<open>The periodic cleanup (every 15 seconds)\<close>

text \<open>The callback of \<^verbatim>\<open>Object.keys(rooms).forEach\<close> for one room. A key of the snapshot is
  still in \<open>rooms\<close> when its turn comes, since the callback of a room deletes no other
  room; for a key that is not, the model leaves the store as it is.\<close>

definition sweep_room :: "state \<Rightarrow> string \<Rightarrow> state" where
  "sweep_room st r =
     (case rooms st r of
        None \<Rightarrow> st
      | Some cs \<Rightarrow>
          let beforeCleanup = length cs;
              activeClients = filter (\<lambda>c. readyState st (ws c) = OPEN) cs
          in if length activeClients \<noteq> beforeCleanup then
               let st1 = st\<lparr>rooms := (rooms st)(r \<mapsto> activeClients)\<rparr>
               in if length activeClients = 0
                  then st1\<lparr>rooms := (rooms st1)(r := None),
                           messageBuffers := (messageBuffers st1)(r := None),
                           typingUsers := (typingUsers st1)(r := None)\<rparr>
                  else
                    let st2 = broadcastUserList st1 r
                    in (case typingUsers st2 r of
                          None \<Rightarrow> st2
                        | Some s \<Rightarrow>
                            st2\<lparr>typingUsers := (typingUsers st2)(r \<mapsto>
                              filter (\<lambda>user. user \<in> set (map nick activeClients)) s)\<rparr>)
             else st)"

text \<open>The whole pass, over the keys that \<^verbatim>\<open>Object.keys(rooms)\<close> returned, in its order.\<close>

definition sweep :: "state \<Rightarrow> string list \<Rightarrow> state" where
  "sweep st keys = foldl sweep_room st keys"

subsection \<open>Invariant of the store\<close>

text \<open>
  What every handler keeps true of a room of the store: it has a client, no two of its
  clients share a nickname, no nickname is empty, its name is neither empty nor a
  property of \<^verbatim>\<open>Object.prototype\<close>, it has a typing set, and it has a history buffer of
  at most \<open>MAX_MESSAGES\<close> entries; and there is no history buffer without a room.
\<close>

definition room_ok :: "state \<Rightarrow> string \<Rightarrow> client list \<Rightarrow> bool" where
  "room_ok st r cs =
     (cs \<noteq> [] \<and> distinct (map nick cs) \<and> [] \<notin> set (map nick cs) \<and>
      r \<noteq> [] \<and> r \<notin> set Object_prototype_keys \<and>
      typingUsers st r \<noteq> None \<and>
      (case messageBuffers st r of None \<Rightarrow> False | Some h \<Rightarrow> length h \<le> MAX_MESSAGES))"

definition store_ok :: "state \<Rightarrow> bool" where
  "store_ok st =
     (\<forall>r. (rooms st r = None \<longrightarrow> messageBuffers st r = None) \<and>
          (\<forall>cs. rooms st r = Some cs \<longrightarrow> room_ok st r cs))"

text \<open>
  The stores of a run: the handlers fire in any order, on any arguments, the transport
  changes what the sockets report at any time, and a join that throws ends the run.
\<close>

inductive reachable :: "runtime \<Rightarrow> state \<Rightarrow> bool" for rt :: runtime where
  start: "reachable rt (initial rs)"
| transport: "reachable rt st \<Longrightarrow> reachable rt (st\<lparr>readyState := rs\<rparr>)"
| connection:
    "reachable rt st \<Longrightarrow> onConnection st w room_param nick_param t_join t_sys = Inr st' \<Longrightarrow>
     reachable rt st'"
| message: "reachable rt st \<Longrightarrow> reachable rt (onMessage rt st w r n data now)"
| closed: "reachable rt st \<Longrightarrow> reachable rt (onClose st w r n now)"
| cleanup: "reachable rt st \<Longrightarrow> reachable rt (sweep st keys)"

text \<open>
  The payloads that reach lines 443 to 473 with the text \<open>t\<close>: they are not empty once
  trimmed, and either they are no JSON text (then \<open>t\<close> is the trimmed payload, of at most
  500 code units), or they are a JSON object of type \<^verbatim>\<open>message\<close> whose \<^verbatim>\<open>text\<close> is \<open>t\<close>,
  passes the length check and has a string.
\<close>

definition accepted :: "runtime \<Rightarrow> string \<Rightarrow> json \<Rightarrow> bool" where
  "accepted rt data t =
     (trim data \<noteq> [] \<and>
      (case JSON_parse rt (trim data) of
         None \<Rightarrow> t = JStr (trim data) \<and> length (trim data) \<le> 500
       | Some (JObj kvs) \<Rightarrow>
           map_of kvs ''type'' = Some (JStr ''message'') \<and> map_of kvs ''text'' = Some t \<and>
           length_gt_500 rt (Some t) = Inr False \<and> \<not> toString_throws t
       | Some v \<Rightarrow> False))"

text \<open>The typing set of a room, as a set.\<close>

definition typing_set :: "state \<Rightarrow> string \<Rightarrow> string set" where
  "typing_set st r = (case typingUsers st r of None \<Rightarrow> {} | Some s \<Rightarrow> set s)"

subsection \<open>Notions used in the statements\<close>

text \<open>The typing set that \<open>broadcastTypingStatus st r u b\<close> writes and broadcasts.\<close>

definition typing_after :: "state \<Rightarrow> string \<Rightarrow> string \<Rightarrow> bool \<Rightarrow> string list" where
  "typing_after st r u b =
     (let tu = (case typingUsers st r of None \<Rightarrow> [] | Some s \<Rightarrow> s)
      in if b then set_add u tu else set_delete u tu)"

text \<open>The clients of room \<open>r\<close> once \<open>cleanupUserConnections\<close> has removed the connections
  of \<open>n\<close> that are not open; a room that does not exist yet has none.\<close>

definition cleaned :: "state \<Rightarrow> string \<Rightarrow> string \<Rightarrow> client list" where
  "cleaned st r n =
     (case rooms st r of
        None \<Rightarrow> []
      | Some cs \<Rightarrow> filter (\<lambda>c. \<not> (nick c = n \<and> readyState st (ws c) \<noteq> OPEN)) cs)"

subsection \<open>A runtime and a store for the examples\<close>

text \<open>
  A runtime that agrees with Node on the payloads of the examples below: the five
  JSON texts listed parse as \<^verbatim>\<open>JSON.parse\<close> parses them, and the other payloads used
  (\<^verbatim>\<open>hello\<close>, \<^verbatim>\<open>hi\<close> and runs of the letter \<^verbatim>\<open>a\<close>) are no JSON texts. The coercion is never
  reached in the examples.
\<close>

definition example_parse :: "string \<Rightarrow> json option" where
  "example_parse s =
     (if s = ''42'' then Some (JNum (Finite 42))
      else if s = ''{\"type\":\"typing\",\"isTyping\":true}''
        then Some (JObj [(''type'', JStr ''typing''), (''isTyping'', JBool True)])
      else if s = ''{\"type\":\"message\"}''
        then Some (JObj [(''type'', JStr ''message'')])
      else if s = ''{\"type\":\"message\",\"text\":\"\"}''
        then Some (JObj [(''type'', JStr ''message''), (''text'', JStr [])])
      else if s = ''{\"type\":\"message\",\"text\":{\"toString\":1}}''
        then Some (JObj [(''type'', JStr ''message''),
                         (''text'', JObj [(''toString'', JNum (Finite 1))])])
      else None)"

definition example_rt :: runtime where
  "example_rt = \<lparr>JSON_parse = example_parse, coerce_gt_500 = (\<lambda>v. Inr False)\<rparr>"

text \<open>Room \<^verbatim>\<open>lobby\<close> with the open connection 1 of \<^verbatim>\<open>ann\<close>, an empty history and nobody
  typing; every socket reports \<^verbatim>\<open>OPEN\<close>.\<close>

definition lobby :: state where
  "lobby = \<lparr>rooms = [''lobby'' \<mapsto> [\<lparr>ws = 1, nick = ''ann'', roomId = ''lobby'', joinedAt = 0\<rparr>]],
            messageBuffers = [''lobby'' \<mapsto> []],
            typingUsers = [''lobby'' \<mapsto> []],
            readyState = (\<lambda>w. OPEN),
            wire = []\<rparr>"

text \<open>The same room with one message in its history and \<^verbatim>\<open>ann\<close> typing.\<close>

definition busy_lobby :: state where
  "busy_lobby =
     lobby\<lparr>messageBuffers :=
               [''lobby'' \<mapsto> [\<lparr>m_nick = ''ann'', m_text = JStr ''hi'', m_timestamp = 5\<rparr>]],
           typingUsers := [''lobby'' \<mapsto> [''ann'']]\<rparr>"

text \<open>
  A store of a run in which the room of a session is gone while its socket still
  delivers payloads: \<^verbatim>\<open>ann\<close> joins the new room \<^verbatim>\<open>lobby\<close> (\<open>joined\<close>); her socket then reports
  \<^verbatim>\<open>CLOSING\<close>, the periodic cleanup reaps the room, and a typing payload of hers arrives
  (\<open>reaped\<close>).
\<close>

definition joined :: state where
  "joined =
     (case onConnection (initial (\<lambda>w. OPEN)) 1 (Some ''lobby'') (Some ''ann'') 3 4 of
        Inr st \<Rightarrow> st
      | Inl e \<Rightarrow> initial (\<lambda>w. OPEN))"

definition reaped :: state where
  "reaped =
     onMessage example_rt (sweep (joined\<lparr>readyState := (\<lambda>w. CLOSING)\<rparr>) [''lobby''])
       1 ''lobby'' ''ann'' ''{\"type\":\"typing\",\"isTyping\":true}'' 5"

text \<open>A full history buffer: fifty messages of \<^verbatim>\<open>ann\<close>, told apart by their timestamps.\<close>

definition full_history :: "message list" where
  "full_history = map (\<lambda>i. \<lparr>m_nick = ''ann'', m_text = JStr ''x'', m_timestamp = i\<rparr>) [0..<50]"

section \<open>Properties\<close>

subsection \<open>What each helper writes\<close>

text \<open>The history buffer: an append below capacity keeps every entry, an append at
  capacity drops the first one, and the buffer that results from a sequence of appends
  is the last 50 of the messages appended, in their order.\<close>

lemma push_message_eq:
  "push_message h m = (if length h < 50 then h @ [m] else tl h @ [m])"
  by (cases h) (simp_all add: push_message_def MAX_MESSAGES_def)

lemma push_message_drop:
  "length h \<le> 50 \<Longrightarrow> push_message h m = drop (Suc (length h) - 50) (h @ [m])"
  by (cases h) (auto simp: push_message_eq Suc_diff_le drop_Cons')

lemma push_message_bound:
  "length h \<le> MAX_MESSAGES \<Longrightarrow> length (push_message h m) \<le> MAX_MESSAGES"
  by (simp add: push_message_def Let_def)

lemma push_message_full: "length h = MAX_MESSAGES \<Longrightarrow> push_message h m = tl h @ [m]"
  by (cases h) (simp_all add: push_message_def MAX_MESSAGES_def)

lemma foldl_push_bound:
  "length h \<le> MAX_MESSAGES \<Longrightarrow> length (foldl push_message h ms) \<le> MAX_MESSAGES"
  by (induction ms arbitrary: h) (simp_all add: push_message_bound)

lemma foldl_push_drop:
  "length h \<le> 50 \<Longrightarrow> foldl push_message h ms = drop (length h + length ms - 50) (h @ ms)"
proof (induction ms arbitrary: h)
  case Nil
  then show ?case by simp
next
  case (Cons m ms)
  let ?k = "Suc (length h) - 50"
  have p: "push_message h m = drop ?k (h @ [m])"
    using Cons.prems by (rule push_message_drop)
  have l: "length (push_message h m) \<le> 50"
    using push_message_bound [of h m] Cons.prems by (simp add: MAX_MESSAGES_def)
  have k: "?k \<le> length (h @ [m])"
    by simp
  have "foldl push_message h (m # ms) = foldl push_message (push_message h m) ms"
    by simp
  also have "\<dots> = drop (length (push_message h m) + length ms - 50) (push_message h m @ ms)"
    using l by (rule Cons.IH)
  also have "push_message h m @ ms = drop ?k (h @ m # ms)"
    using k by (simp add: p)
  also have "drop (length (push_message h m) + length ms - 50) (drop ?k (h @ m # ms)) =
      drop (length h + length (m # ms) - 50) (h @ m # ms)"
  proof -
    have len: "length (push_message h m) = Suc (length h) - ?k"
      by (simp add: p)
    have "length (push_message h m) + length ms - 50 + ?k = length h + length (m # ms) - 50"
      using Cons.prems unfolding len by simp
    then show ?thesis
      by (simp only: drop_drop)
  qed
  finally show ?case .
qed

lemma recipients_readyState [simp]:
  "recipients (st\<lparr>wire := x\<rparr>) cs = recipients st cs"
  "recipients (st\<lparr>rooms := y\<rparr>) cs = recipients st cs"
  "recipients (st\<lparr>messageBuffers := z\<rparr>) cs = recipients st cs"
  "recipients (st\<lparr>typingUsers := u\<rparr>) cs = recipients st cs"
  by (simp_all add: recipients_def)

lemma send_fields [simp]:
  "rooms (send st w ev) = rooms st"
  "messageBuffers (send st w ev) = messageBuffers st"
  "typingUsers (send st w ev) = typingUsers st"
  "readyState (send st w ev) = readyState st"
  "wire (send st w ev) = wire st @ [Send w ev]"
  by (simp_all add: send_def)

lemma close_fields [simp]:
  "rooms (close st w c s) = rooms st"
  "messageBuffers (close st w c s) = messageBuffers st"
  "typingUsers (close st w c s) = typingUsers st"
  "readyState (close st w c s) = readyState st"
  "wire (close st w c s) = wire st @ [Close w c s]"
  by (simp_all add: close_def)

lemma forEach_send_fields [simp]:
  "rooms (forEach_send st cs ev) = rooms st"
  "messageBuffers (forEach_send st cs ev) = messageBuffers st"
  "typingUsers (forEach_send st cs ev) = typingUsers st"
  "readyState (forEach_send st cs ev) = readyState st"
  "wire (forEach_send st cs ev) = wire st @ map (\<lambda>w. Send w ev) (recipients st cs)"
  by (simp_all add: forEach_send_def)

lemma recipients_cong [simp]:
  "recipients (send st w ev) cs = recipients st cs"
  "recipients (close st w c s) cs = recipients st cs"
  "recipients (forEach_send st cs' ev) cs = recipients st cs"
  by (simp_all add: recipients_def)

lemma broadcastUserList_fields [simp]:
  "rooms (broadcastUserList st r) = rooms st"
  "messageBuffers (broadcastUserList st r) = messageBuffers st"
  "typingUsers (broadcastUserList st r) = typingUsers st"
  "readyState (broadcastUserList st r) = readyState st"
  "wire (broadcastUserList st r) = wire st @
     (case rooms st r of None \<Rightarrow> []
      | Some cs \<Rightarrow> map (\<lambda>w. Send w (UserList (map nick cs))) (recipients st cs))"
  by (simp_all add: broadcastUserList_def split: option.splits)

lemma broadcastSystemMessage_fields [simp]:
  "rooms (broadcastSystemMessage st r msg now) = rooms st"
  "messageBuffers (broadcastSystemMessage st r msg now) = messageBuffers st"
  "typingUsers (broadcastSystemMessage st r msg now) = typingUsers st"
  "readyState (broadcastSystemMessage st r msg now) = readyState st"
  "wire (broadcastSystemMessage st r msg now) = wire st @
     (case rooms st r of None \<Rightarrow> []
      | Some cs \<Rightarrow> map (\<lambda>w. Send w (System msg now)) (recipients st cs))"
  by (simp_all add: broadcastSystemMessage_def split: option.splits)

lemma broadcastTypingStatus_fields [simp]:
  "rooms (broadcastTypingStatus st r u b) = rooms st"
  "messageBuffers (broadcastTypingStatus st r u b) = messageBuffers st"
  "typingUsers (broadcastTypingStatus st r u b) = (typingUsers st)(r \<mapsto> typing_after st r u b)"
  "readyState (broadcastTypingStatus st r u b) = readyState st"
  "wire (broadcastTypingStatus st r u b) = wire st @
     (case rooms st r of None \<Rightarrow> []
      | Some cs \<Rightarrow> map (\<lambda>w. Send w (Typing (typing_after st r u b))) (recipients st cs))"
  by (simp_all add: broadcastTypingStatus_def typing_after_def Let_def split: option.splits)

lemma recipients_broadcast [simp]:
  "recipients (broadcastUserList st r) cs = recipients st cs"
  "recipients (broadcastSystemMessage st r msg now) cs = recipients st cs"
  "recipients (broadcastTypingStatus st r u b) cs = recipients st cs"
  by (simp_all add: recipients_def)

lemma cleanupUserConnections_fields [simp]:
  "rooms (cleanupUserConnections st r n) =
     (case rooms st r of None \<Rightarrow> rooms st
      | Some cs \<Rightarrow> (rooms st)(r \<mapsto>
          filter (\<lambda>c. \<not> (nick c = n \<and> readyState st (ws c) \<noteq> OPEN)) cs))"
  "messageBuffers (cleanupUserConnections st r n) = messageBuffers st"
  "typingUsers (cleanupUserConnections st r n) = typingUsers st"
  "readyState (cleanupUserConnections st r n) = readyState st"
  "wire (cleanupUserConnections st r n) = wire st"
  by (simp_all add: cleanupUserConnections_def split: option.splits)

subsection \<open>Joining\<close>

text \<open>The join that is not rejected: what it writes and what it sends, in order.\<close>

lemma onConnection_join:
  assumes "r \<noteq> []" "n \<noteq> []" "r \<notin> set Object_prototype_keys"
    and "find (\<lambda>c. nick c = n \<and> readyState st (ws c) = OPEN) (cleaned st r n) = None"
  shows "\<exists>st'. onConnection st w (Some r) (Some n) t_join t_sys = Inr st' \<and>
    rooms st' = (rooms st)(r \<mapsto> cleaned st r n @ [\<lparr>ws = w, nick = n, roomId = r, joinedAt = t_join\<rparr>]) \<and>
    messageBuffers st' = (if rooms st r = None then (messageBuffers st)(r \<mapsto> []) else messageBuffers st) \<and>
    typingUsers st' = (if rooms st r = None then (typingUsers st)(r \<mapsto> []) else typingUsers st) \<and>
    readyState st' = readyState st \<and>
    wire st' = wire st @
      [Send w (History (case messageBuffers st' r of None \<Rightarrow> [] | Some h \<Rightarrow> h))] @
      map (\<lambda>x. Send x (UserList (map nick (cleaned st r n) @ [n])))
        (recipients st (cleaned st r n @ [\<lparr>ws = w, nick = n, roomId = r, joinedAt = t_join\<rparr>])) @
      [Send w (Typing (case typingUsers st' r of None \<Rightarrow> [] | Some s \<Rightarrow> s))] @
      map (\<lambda>x. Send x (System (n @ '' joined the room'') t_sys))
        (recipients st (cleaned st r n @ [\<lparr>ws = w, nick = n, roomId = r, joinedAt = t_join\<rparr>])) @
      [Send w (Connected ''Successfully connected to the room'')]"
proof (cases "rooms st r")
  case None
  with assms show ?thesis
    by (simp add: onConnection_def cleaned_def Let_def recipients_def)
next
  case (Some cs)
  with assms show ?thesis
    by (simp add: onConnection_def cleaned_def Let_def recipients_def)
qed

text \<open>A join to a room that is not in the store creates it, with an empty history.\<close>

lemma join_fresh_room:
  assumes "rooms st r = None" "r \<noteq> []" "r \<notin> set Object_prototype_keys" "n \<noteq> []"
  shows "\<exists>st'. onConnection st w (Some r) (Some n) t_join t_sys = Inr st' \<and>
    rooms st' r = Some [\<lparr>ws = w, nick = n, roomId = r, joinedAt = t_join\<rparr>] \<and>
    messageBuffers st' r = Some [] \<and> typingUsers st' r = Some [] \<and>
    wire st' = wire st @ Send w (History []) #
      map (\<lambda>x. Send x (UserList [n]))
        (recipients st [\<lparr>ws = w, nick = n, roomId = r, joinedAt = t_join\<rparr>]) @
      Send w (Typing []) #
      map (\<lambda>x. Send x (System (n @ '' joined the room'') t_sys))
        (recipients st [\<lparr>ws = w, nick = n, roomId = r, joinedAt = t_join\<rparr>]) @
      [Send w (Connected ''Successfully connected to the room'')]"
proof -
  have c: "cleaned st r n = []"
    using assms(1) by (simp add: cleaned_def)
  then have "find (\<lambda>c. nick c = n \<and> readyState st (ws c) = OPEN) (cleaned st r n) = None"
    by simp
  from onConnection_join [OF assms(2,4,3) this, of w t_join t_sys]
  show ?thesis
    using assms(1) by (auto simp: c)
qed

text \<open>The join that is rejected for its nickname.\<close>

lemma onConnection_taken:
  assumes "r \<noteq> []" "n \<noteq> []" "r \<notin> set Object_prototype_keys"
    and "find (\<lambda>c. nick c = n \<and> readyState st (ws c) = OPEN) (cleaned st r n) = Some c"
    and "rooms st r = Some cs"
  shows "onConnection st w (Some r) (Some n) t_join t_sys =
    Inr (st\<lparr>rooms := (rooms st)(r \<mapsto> cleaned st r n),
            wire := wire st @ [Send w (Error ''Nickname already taken in this room''),
                               Close w 1008 ''Nickname already taken'']\<rparr>)"
  using assms
  by (simp add: onConnection_def cleaned_def Let_def send_def close_def cleanupUserConnections_def)

subsection \<open>The invariant is kept: joining\<close>

lemma store_ok_cong:
  "rooms st' = rooms st \<Longrightarrow> messageBuffers st' = messageBuffers st \<Longrightarrow>
   typingUsers st' = typingUsers st \<Longrightarrow> store_ok st' = store_ok st"
  by (simp add: store_ok_def room_ok_def)

lemma store_ok_room: "store_ok st \<Longrightarrow> rooms st r = Some cs \<Longrightarrow> room_ok st r cs"
  by (simp add: store_ok_def)

lemma store_ok_no_room: "store_ok st \<Longrightarrow> rooms st r = None \<Longrightarrow> messageBuffers st r = None"
  by (simp add: store_ok_def)

lemma store_ok_initial: "store_ok (initial rs)"
  by (simp add: store_ok_def initial_def)

lemma store_ok_readyState: "store_ok (st\<lparr>readyState := rs\<rparr>) = store_ok st"
  by (simp add: store_ok_def room_ok_def)

text \<open>A handler that touches room \<open>r\<close> only keeps the invariant when it keeps it at \<open>r\<close>.\<close>

lemma store_ok_step:
  assumes "store_ok st"
    and "\<And>r'. r' \<noteq> r \<Longrightarrow> rooms st' r' = rooms st r' \<and>
           messageBuffers st' r' = messageBuffers st r' \<and> typingUsers st' r' = typingUsers st r'"
    and "rooms st' r = None \<Longrightarrow> messageBuffers st' r = None"
    and "\<And>cs. rooms st' r = Some cs \<Longrightarrow> room_ok st' r cs"
  shows "store_ok st'"
  unfolding store_ok_def
proof (intro allI conjI impI)
  fix r' assume "rooms st' r' = None"
  then show "messageBuffers st' r' = None"
    using assms(1) assms(2) [of r'] assms(3) by (cases "r' = r") (auto simp: store_ok_def)
next
  fix r' cs assume "rooms st' r' = Some cs"
  then show "room_ok st' r' cs"
    using assms(1) assms(2) [of r'] assms(4) by (cases "r' = r") (auto simp: store_ok_def room_ok_def)
qed

lemma find_cleaned_None:
  "find (\<lambda>c. nick c = n \<and> readyState st (ws c) = OPEN) (cleaned st r n) = None \<Longrightarrow>
   n \<notin> nick ` set (cleaned st r n)"
  by (auto simp: find_None_iff cleaned_def split: option.splits)

lemma room_ok_cleaned:
  assumes "room_ok st r cs" "rooms st r = Some cs" "cleaned st r n \<noteq> []"
  shows "room_ok st r (cleaned st r n)"
  using assms by (auto simp: room_ok_def cleaned_def distinct_map_filter)

lemma store_ok_onConnection:
  assumes "store_ok st" and "onConnection st w room_param nick_param t_join t_sys = Inr st'"
  shows "store_ok st'"
proof (cases "\<exists>r n. room_param = Some r \<and> nick_param = Some n \<and> r \<noteq> [] \<and> n \<noteq> []")
  case False
  then have "st' = close st w 1008 ''Room and nick are required''"
    using assms(2) by (auto simp: onConnection_def split: option.splits)
  with assms(1) show ?thesis
    by (simp add: store_ok_cong [of "close st w 1008 ''Room and nick are required''" st])
next
  case True
  then obtain r n where p: "room_param = Some r" "nick_param = Some n" "r \<noteq> []" "n \<noteq> []"
    by blast
  from assms(2) p have np: "r \<notin> set Object_prototype_keys"
    by (auto simp: onConnection_def split: if_splits)
  show ?thesis
  proof (cases "find (\<lambda>c. nick c = n \<and> readyState st (ws c) = OPEN) (cleaned st r n)")
    case (Some c)
    then have ne: "cleaned st r n \<noteq> []" by auto
    then obtain cs where cs: "rooms st r = Some cs"
      by (auto simp: cleaned_def split: option.splits)
    from onConnection_taken [OF p(3,4) np Some cs] assms(2) p
    have st': "st' = st\<lparr>rooms := (rooms st)(r \<mapsto> cleaned st r n),
            wire := wire st @ [Send w (Error ''Nickname already taken in this room''),
                               Close w 1008 ''Nickname already taken'']\<rparr>"
      by simp
    have ok: "room_ok st r (cleaned st r n)"
      using room_ok_cleaned [OF store_ok_room [OF assms(1) cs] cs ne] .
    show ?thesis
    proof (rule store_ok_step [OF assms(1), of r])
      show "rooms st' r = None \<Longrightarrow> messageBuffers st' r = None"
        by (simp add: st')
      show "\<And>cs. rooms st' r = Some cs \<Longrightarrow> room_ok st' r cs"
        using ok by (auto simp: st' room_ok_def)
    qed (simp add: st')
  next
    case None
    from onConnection_join [OF p(3,4) np None, of w t_join t_sys] assms(2) p
    have f: "rooms st' = (rooms st)(r \<mapsto> cleaned st r n @ [\<lparr>ws = w, nick = n, roomId = r, joinedAt = t_join\<rparr>])"
      "messageBuffers st' = (if rooms st r = None then (messageBuffers st)(r \<mapsto> []) else messageBuffers st)"
      "typingUsers st' = (if rooms st r = None then (typingUsers st)(r \<mapsto> []) else typingUsers st)"
      by auto
    have fresh: "n \<notin> nick ` set (cleaned st r n)"
      using find_cleaned_None [OF None] .
    show ?thesis
    proof (rule store_ok_step [OF assms(1), of r])
      show "rooms st' r = None \<Longrightarrow> messageBuffers st' r = None"
        by (simp add: f)
      show "room_ok st' r cs" if "rooms st' r = Some cs" for cs
      proof (cases "rooms st r")
        case None
        then show ?thesis
          using that p np by (auto simp: f room_ok_def cleaned_def MAX_MESSAGES_def)
      next
        case (Some cs0)
        from store_ok_room [OF assms(1) Some] have "room_ok st r cs0" .
        then show ?thesis
          using that Some fresh p
          by (auto simp: f room_ok_def cleaned_def distinct_map_filter)
      qed
    qed (simp add: f)
  qed
qed

subsection \<open>Messages\<close>

lemma acceptMessage_room:
  assumes "rooms st r = Some cs" "messageBuffers st r = Some h" "typingUsers st r = Some s"
    and "\<not> toString_throws t"
  shows "acceptMessage st r n t now =
    (None, st\<lparr>typingUsers := (typingUsers st)(r \<mapsto> removeAll n s),
              messageBuffers := (messageBuffers st)(r \<mapsto>
                push_message h \<lparr>m_nick = n, m_text = t, m_timestamp = now\<rparr>),
              wire := wire st @
                map (\<lambda>x. Send x (Typing (removeAll n s))) (recipients st cs) @
                map (\<lambda>x. Send x (Message n t now)) (recipients st cs)\<rparr>)"
  using assms
  by (simp add: acceptMessage_def broadcastTypingStatus_def forEach_send_def set_delete_def
      Let_def)

lemma onMessage_try_empty:
  "trim data = [] \<Longrightarrow> onMessage_try rt st w r n data now = (None, st)"
  by (simp add: onMessage_try_def)

lemma onMessage_try_plain:
  assumes "trim data \<noteq> []" "JSON_parse rt (trim data) = None"
  shows "onMessage_try rt st w r n data now =
    (if 500 < length (trim data)
     then (None, send st w (Error ''Message too long (max 500 characters)''))
     else acceptMessage st r n (JStr (trim data)) now)"
  using assms by (simp add: onMessage_try_def)

lemma onMessage_try_typing:
  assumes "trim data \<noteq> []" "JSON_parse rt (trim data) = Some (JObj kvs)"
    "map_of kvs ''type'' = Some (JStr ''typing'')"
  shows "onMessage_try rt st w r n data now =
    (None, broadcastTypingStatus st r n (truthy (map_of kvs ''isTyping'')))"
  using assms by (simp add: onMessage_try_def)

lemma onMessage_try_envelope:
  assumes "trim data \<noteq> []" "JSON_parse rt (trim data) = Some (JObj kvs)"
    "map_of kvs ''type'' = Some (JStr ''message'')"
  shows "onMessage_try rt st w r n data now =
    (case length_gt_500 rt (map_of kvs ''text'') of
       Inl e \<Rightarrow> (Some e, st)
     | Inr True \<Rightarrow> (None, send st w (Error ''Message too long (max 500 characters)''))
     | Inr False \<Rightarrow>
         (case map_of kvs ''text'' of
            None \<Rightarrow> (Some TypeError, st)
          | Some t \<Rightarrow> acceptMessage st r n t now))"
  using assms by (simp add: onMessage_try_def)

lemma store_ok_broadcastTypingStatus:
  "store_ok st \<Longrightarrow> store_ok (broadcastTypingStatus st r u b)"
  by (rule store_ok_step [of st r]) (auto simp: store_ok_def room_ok_def)

lemma store_ok_acceptMessage:
  assumes "store_ok st"
  shows "store_ok (snd (acceptMessage st r n t now))"
proof (cases "toString_throws t")
  case True
  with assms show ?thesis by (simp add: acceptMessage_def)
next
  case False
  show ?thesis
  proof (cases "rooms st r")
    case None
    with assms have "messageBuffers st r = None" by (simp add: store_ok_def)
    with None False show ?thesis
      by (intro store_ok_step [OF assms, of r])
        (auto simp: acceptMessage_def Let_def split: option.splits)
  next
    case (Some cs)
    with assms have ok: "room_ok st r cs" by (simp add: store_ok_def)
    then obtain h s where hs: "messageBuffers st r = Some h" "typingUsers st r = Some s"
      "length h \<le> MAX_MESSAGES"
      by (auto simp: room_ok_def split: option.splits)
    show ?thesis
      unfolding acceptMessage_room [OF Some hs(1,2) False]
      apply (rule store_ok_step [OF assms, of r])
      using ok Some hs by (auto simp: room_ok_def push_message_bound)
  qed
qed

lemma store_ok_onMessage_try:
  assumes "store_ok st"
  shows "store_ok (snd (onMessage_try rt st w r n data now))"
proof -
  have s: "store_ok (send st w ev)" for ev
    using assms by (simp add: store_ok_cong [of "send st w ev" st])
  show ?thesis
    using assms s store_ok_acceptMessage [OF assms] store_ok_broadcastTypingStatus [OF assms]
    by (auto simp: onMessage_try_def Let_def split: option.splits sum.splits bool.splits)
qed

lemma store_ok_onMessage:
  assumes "store_ok st"
  shows "store_ok (onMessage rt st w r n data now)"
proof -
  obtain e st' where r: "onMessage_try rt st w r n data now = (e, st')"
    by (cases "onMessage_try rt st w r n data now")
  with store_ok_onMessage_try [OF assms, of rt w r n data now] have "store_ok st'" by simp
  then have "store_ok (send st' w ev)" for ev
    by (simp add: store_ok_cong [of "send st' w ev" st'])
  with r \<open>store_ok st'\<close> show ?thesis
    by (simp add: onMessage_def split: option.splits)
qed

subsection \<open>Leaving and the periodic cleanup\<close>

lemma onClose_no_room: "rooms st r = None \<Longrightarrow> onClose st w r n now = st"
  by (simp add: onClose_def)

lemma onClose_last:
  assumes "rooms st r = Some cs" "filter (\<lambda>c. ws c \<noteq> w) cs = []"
  shows "onClose st w r n now =
    st\<lparr>rooms := (rooms st)(r := None),
       messageBuffers := (messageBuffers st)(r := None),
       typingUsers := (typingUsers st)(r := None)\<rparr>"
  using assms
  by (simp add: onClose_def Let_def broadcastTypingStatus_def forEach_send_def recipients_def
      split: option.splits)

lemma onClose_others:
  assumes "rooms st r = Some cs" "filter (\<lambda>c. ws c \<noteq> w) cs \<noteq> []"
  shows "onClose st w r n now =
    st\<lparr>rooms := (rooms st)(r \<mapsto> filter (\<lambda>c. ws c \<noteq> w) cs),
       typingUsers := (case typingUsers st r of
                         None \<Rightarrow> typingUsers st
                       | Some s \<Rightarrow> (typingUsers st)(r \<mapsto> removeAll n s)),
       wire := wire st @
         (case typingUsers st r of
            None \<Rightarrow> []
          | Some s \<Rightarrow> map (\<lambda>x. Send x (Typing (removeAll n s)))
                        (recipients st (filter (\<lambda>c. ws c \<noteq> w) cs))) @
         map (\<lambda>x. Send x (System (n @ '' left the room'') now))
           (recipients st (filter (\<lambda>c. ws c \<noteq> w) cs)) @
         map (\<lambda>x. Send x (UserList (map nick (filter (\<lambda>c. ws c \<noteq> w) cs))))
           (recipients st (filter (\<lambda>c. ws c \<noteq> w) cs))\<rparr>"
  using assms
  by (simp add: onClose_def Let_def broadcastTypingStatus_def broadcastSystemMessage_def
      broadcastUserList_def forEach_send_def set_delete_def
      split: option.splits)

lemma sweep_room_no_room: "rooms st r = None \<Longrightarrow> sweep_room st r = st"
  by (simp add: sweep_room_def)

lemma sweep_room_all_open:
  assumes "rooms st r = Some cs" "\<forall>c \<in> set cs. readyState st (ws c) = OPEN"
  shows "sweep_room st r = st"
  using assms by (simp add: sweep_room_def)

lemma sweep_room_none_open:
  assumes "rooms st r = Some cs" "cs \<noteq> []" "filter (\<lambda>c. readyState st (ws c) = OPEN) cs = []"
  shows "sweep_room st r =
    st\<lparr>rooms := (rooms st)(r := None),
       messageBuffers := (messageBuffers st)(r := None),
       typingUsers := (typingUsers st)(r := None)\<rparr>"
  using assms by (simp add: sweep_room_def)

lemma sweep_room_some_open:
  assumes "rooms st r = Some cs"
    "length (filter (\<lambda>c. readyState st (ws c) = OPEN) cs) \<noteq> length cs"
    "filter (\<lambda>c. readyState st (ws c) = OPEN) cs \<noteq> []"
  shows "sweep_room st r =
    st\<lparr>rooms := (rooms st)(r \<mapsto> filter (\<lambda>c. readyState st (ws c) = OPEN) cs),
       typingUsers := (case typingUsers st r of
                         None \<Rightarrow> typingUsers st
                       | Some s \<Rightarrow> (typingUsers st)(r \<mapsto>
                           filter (\<lambda>u. u \<in> nick ` {c \<in> set cs. readyState st (ws c) = OPEN}) s)),
       wire := wire st @
         map (\<lambda>x. Send x (UserList (map nick (filter (\<lambda>c. readyState st (ws c) = OPEN) cs))))
           (recipients st (filter (\<lambda>c. readyState st (ws c) = OPEN) cs))\<rparr>"
  using assms
  by (simp add: sweep_room_def Let_def broadcastUserList_def forEach_send_def
      split: option.splits)

lemma room_ok_filter:
  assumes "room_ok st r cs" "filter P cs \<noteq> []"
    "typingUsers st' r \<noteq> None" "messageBuffers st' r = messageBuffers st r"
  shows "room_ok st' r (filter P cs)"
  using assms by (auto simp: room_ok_def distinct_map_filter)

lemma store_ok_onClose:
  assumes "store_ok st"
  shows "store_ok (onClose st w r n now)"
proof (cases "rooms st r")
  case None
  with assms show ?thesis by (simp add: onClose_no_room)
next
  case (Some cs)
  then have ok: "room_ok st r cs" using assms by (simp add: store_ok_def)
  show ?thesis
  proof (cases "filter (\<lambda>c. ws c \<noteq> w) cs = []")
    case True
    show ?thesis
      unfolding onClose_last [OF Some True]
      by (rule store_ok_step [OF assms, of r]) simp_all
  next
    case False
    from ok obtain s where s: "typingUsers st r = Some s"
      by (auto simp: room_ok_def)
    show ?thesis
      unfolding onClose_others [OF Some False]
      apply (rule store_ok_step [OF assms, of r])
      using room_ok_filter [OF ok False] s by (auto split: option.splits)
  qed
qed

lemma store_ok_sweep_room:
  assumes "store_ok st"
  shows "store_ok (sweep_room st r)"
proof (cases "rooms st r")
  case None
  with assms show ?thesis by (simp add: sweep_room_no_room)
next
  case (Some cs)
  then have ok: "room_ok st r cs" using assms by (simp add: store_ok_def)
  then have ne: "cs \<noteq> []" by (simp add: room_ok_def)
  let ?act = "filter (\<lambda>c. readyState st (ws c) = OPEN) cs"
  show ?thesis
  proof (cases "length ?act = length cs")
    case True
    with Some assms show ?thesis by (simp add: sweep_room_def)
  next
    case False
    show ?thesis
    proof (cases "?act = []")
      case True
      show ?thesis
        unfolding sweep_room_none_open [OF Some ne True]
        by (rule store_ok_step [OF assms, of r]) simp_all
    next
      case nonempty: False
      from ok obtain s where s: "typingUsers st r = Some s"
        by (auto simp: room_ok_def)
      show ?thesis
        unfolding sweep_room_some_open [OF Some False nonempty]
        apply (rule store_ok_step [OF assms, of r])
        using room_ok_filter [OF ok nonempty] s by (auto split: option.splits)
    qed
  qed
qed

lemma store_ok_sweep: "store_ok st \<Longrightarrow> store_ok (sweep st keys)"
  unfolding sweep_def by (induction keys arbitrary: st) (simp_all add: store_ok_sweep_room)

subsection \<open>Runs, and the claims about joining\<close>

text \<open>Every store of a run satisfies the invariant.\<close>

lemma reachable_store_ok: "reachable rt st \<Longrightarrow> store_ok st"
proof (induction rule: reachable.induct)
  case (start rs)
  show ?case by (rule store_ok_initial)
next
  case (transport st rs)
  then show ?case by (simp add: store_ok_readyState)
next
  case (connection st w room_param nick_param t_join t_sys st')
  then show ?case by (blast intro: store_ok_onConnection)
next
  case (message st w r n data now)
  then show ?case by (simp add: store_ok_onMessage)
next
  case (closed st w r n now)
  then show ?case by (simp add: store_ok_onClose)
next
  case (cleanup st keys)
  then show ?case by (simp add: store_ok_sweep)
qed

text \<open>The first join of a run: \<^verbatim>\<open>ann\<close> creates the room \<^verbatim>\<open>lobby\<close>.\<close>

lemma reachable_first_join:
  "\<exists>st. reachable rt st \<and>
     rooms st ''lobby'' = Some [\<lparr>ws = 1, nick = ''ann'', roomId = ''lobby'', joinedAt = 3\<rparr>] \<and>
     messageBuffers st ''lobby'' = Some []"
proof -
  have "rooms (initial (\<lambda>w. OPEN)) ''lobby'' = None"
    by (simp add: initial_def)
  from join_fresh_room [OF this, of "''ann''" 1 3 4]
  obtain st where "onConnection (initial (\<lambda>w. OPEN)) 1 (Some ''lobby'') (Some ''ann'') 3 4 = Inr st"
    and "rooms st ''lobby'' = Some [\<lparr>ws = 1, nick = ''ann'', roomId = ''lobby'', joinedAt = 3\<rparr>]"
    and "messageBuffers st ''lobby'' = Some []"
    by (auto simp: Object_prototype_keys_def)
  then show ?thesis
    using reachable.connection [OF reachable.start] by blast
qed

lemma reachable_history_bound:
  assumes "reachable rt st" "messageBuffers st r = Some h"
  shows "length h \<le> MAX_MESSAGES"
proof -
  from assms(1) have ok: "store_ok st" by (rule reachable_store_ok)
  with assms(2) obtain cs where "rooms st r = Some cs"
    by (cases "rooms st r") (auto simp: store_ok_def)
  with ok have "room_ok st r cs" by (rule store_ok_room)
  with assms(2) show ?thesis by (simp add: room_ok_def)
qed

lemma reachable_distinct_nicks:
  assumes "reachable rt st" "rooms st r = Some cs"
  shows "distinct (map nick cs)"
  using store_ok_room [OF reachable_store_ok [OF assms(1)] assms(2)] by (simp add: room_ok_def)

lemma cleaned_distinct:
  assumes "distinct (map nick cs)" "rooms st r = Some cs" "c \<in> set cs" "nick c = n"
    "readyState st (ws c) = OPEN"
  shows "cleaned st r n = cs"
proof -
  have "c' = c" if "c' \<in> set cs" "nick c' = n" for c'
    using assms(1,3,4) that by (auto simp: distinct_map inj_on_def)
  then show ?thesis
    using assms(2,5) by (auto simp: cleaned_def intro!: filter_True)
qed

text \<open>
  Claim C4. In a store that satisfies the invariant (every store of a run does, by
  \<open>reachable_store_ok\<close>), a join to room \<open>r\<close> under a nickname that a client of \<open>r\<close> with an
  open connection holds sends the joining connection the error event
  "Nickname already taken in this room", closes it with code 1008 and reason
  "Nickname already taken", and changes nothing else: the client list of every room, the
  histories and the typing sets are what they were, so the joining connection is not
  registered. And in every store of a run the nicknames of the clients of a room,
  which are what a user list names, are distinct: no user list names \<open>n\<close> twice.
\<close>

theorem duplicate_nick_rejected:
  assumes "store_ok st" "rooms st r = Some cs"
    and "c \<in> set cs" "nick c = n" "readyState st (ws c) = OPEN"
  shows "onConnection st w (Some r) (Some n) t_join t_sys =
      Inr (st\<lparr>wire := wire st @ [Send w (Error ''Nickname already taken in this room''),
                                  Close w 1008 ''Nickname already taken'']\<rparr>) \<and>
    (\<forall>rt st' r' cs'. reachable rt st' \<and> rooms st' r' = Some cs' \<longrightarrow> distinct (map nick cs'))"
proof (intro conjI allI impI)
  from assms(1,2) have ok: "room_ok st r cs" by (rule store_ok_room)
  with assms(3,4) have n: "n \<noteq> []" and r: "r \<noteq> []" "r \<notin> set Object_prototype_keys"
    and d: "distinct (map nick cs)"
    by (force simp: room_ok_def)+
  have cl: "cleaned st r n = cs"
    using cleaned_distinct [OF d assms(2-5)] .
  have "find (\<lambda>c. nick c = n \<and> readyState st (ws c) = OPEN) (cleaned st r n) \<noteq> None"
    using assms(3-5) by (auto simp: cl find_None_iff)
  then obtain c' where
    f: "find (\<lambda>c. nick c = n \<and> readyState st (ws c) = OPEN) (cleaned st r n) = Some c'"
    by blast
  have same: "(rooms st)(r \<mapsto> cs) = rooms st"
    using assms(2) by (rule map_upd_triv)
  show "onConnection st w (Some r) (Some n) t_join t_sys =
      Inr (st\<lparr>wire := wire st @ [Send w (Error ''Nickname already taken in this room''),
                                  Close w 1008 ''Nickname already taken'']\<rparr>)"
    unfolding onConnection_taken [OF r(1) n r(2) f assms(2)] cl same by simp
next
  fix rt st' r' cs'
  assume "reachable rt st' \<and> rooms st' r' = Some cs'"
  then show "distinct (map nick cs')"
    using reachable_distinct_nicks by blast
qed

theorem duplicate_nick_rejected_witness:
  "store_ok lobby \<and>
   onConnection lobby 2 (Some ''lobby'') (Some ''ann'') 5 6 =
     Inr (lobby\<lparr>wire := [Send 2 (Error ''Nickname already taken in this room''),
                          Close 2 1008 ''Nickname already taken'']\<rparr>) \<and>
   (\<exists>st. reachable example_rt st \<and>
      rooms st ''lobby'' = Some [\<lparr>ws = 1, nick = ''ann'', roomId = ''lobby'', joinedAt = 3\<rparr>] \<and>
      distinct (map nick [\<lparr>ws = 1, nick = ''ann'', roomId = ''lobby'', joinedAt = 3\<rparr>]))"
proof -
  have ok: "store_ok lobby"
    by (simp add: store_ok_def room_ok_def lobby_def Object_prototype_keys_def MAX_MESSAGES_def)
  have room: "rooms lobby ''lobby'' = Some [\<lparr>ws = 1, nick = ''ann'', roomId = ''lobby'', joinedAt = 0\<rparr>]"
    by (simp add: lobby_def)
  have c: "\<lparr>ws = 1, nick = ''ann'', roomId = ''lobby'', joinedAt = 0\<rparr>
      \<in> set [\<lparr>ws = 1, nick = ''ann'', roomId = ''lobby'', joinedAt = 0\<rparr>]"
    by simp
  have n: "nick \<lparr>ws = 1, nick = ''ann'', roomId = ''lobby'', joinedAt = 0\<rparr> = ''ann''"
    by simp
  have o: "readyState lobby (ws \<lparr>ws = 1, nick = ''ann'', roomId = ''lobby'', joinedAt = 0\<rparr>) = OPEN"
    by (simp add: lobby_def)
  note inst = duplicate_nick_rejected [OF ok room c n o, of 2 5 6]
  from inst have a: "onConnection lobby 2 (Some ''lobby'') (Some ''ann'') 5 6 =
     Inr (lobby\<lparr>wire := [Send 2 (Error ''Nickname already taken in this room''),
                          Close 2 1008 ''Nickname already taken'']\<rparr>)"
    by (simp add: lobby_def)
  from reachable_first_join [of example_rt]
  obtain st where st: "reachable example_rt st"
    "rooms st ''lobby'' = Some [\<lparr>ws = 1, nick = ''ann'', roomId = ''lobby'', joinedAt = 3\<rparr>]"
    by blast
  with inst have "distinct (map nick [\<lparr>ws = 1, nick = ''ann'', roomId = ''lobby'', joinedAt = 3\<rparr>])"
    by blast
  with ok a st show ?thesis by blast
qed

text \<open>Connections of \<open>n\<close> that are not open never make the duplicate check fire.\<close>

lemma find_cleaned_stale:
  assumes "\<forall>c \<in> set (case rooms st r of None \<Rightarrow> [] | Some cs \<Rightarrow> cs).
             nick c = n \<longrightarrow> readyState st (ws c) \<noteq> OPEN"
  shows "find (\<lambda>c. nick c = n \<and> readyState st (ws c) = OPEN) (cleaned st r n) = None"
  using assms by (auto simp: find_None_iff cleaned_def split: option.splits)

text \<open>A nickname held only by connections that are not open is free: the join
  succeeds, the dead entries are gone from the room and the new client is registered,
  provided the room names no property of \<^verbatim>\<open>Object.prototype\<close>.\<close>

lemma stale_nick_does_not_block:
  assumes "r \<noteq> []" "n \<noteq> []" "r \<notin> set Object_prototype_keys"
    and "\<forall>c \<in> set (case rooms st r of None \<Rightarrow> [] | Some cs \<Rightarrow> cs).
           nick c = n \<longrightarrow> readyState st (ws c) \<noteq> OPEN"
  shows "\<exists>st'. onConnection st w (Some r) (Some n) t_join t_sys = Inr st' \<and>
    rooms st' r =
      Some (filter (\<lambda>c. nick c \<noteq> n) (case rooms st r of None \<Rightarrow> [] | Some cs \<Rightarrow> cs) @
            [\<lparr>ws = w, nick = n, roomId = r, joinedAt = t_join\<rparr>])"
proof -
  have c: "cleaned st r n =
      filter (\<lambda>c. nick c \<noteq> n) (case rooms st r of None \<Rightarrow> [] | Some cs \<Rightarrow> cs)"
    using assms(4) by (auto simp: cleaned_def split: option.splits intro: filter_cong)
  from onConnection_join [OF assms(1-3) find_cleaned_stale [OF assms(4)], of w t_join t_sys]
  show ?thesis
    unfolding c by auto
qed

text \<open>
  Claim C5, at the input where the code departs from it. A join to the room
  \<^verbatim>\<open>constructor\<close> of the empty store finds no client at all, so no open connection holds
  the nickname and the claim promises that the join succeeds; the handler throws
  instead, before it registers or sends anything. For a room that names no property
  of \<^verbatim>\<open>Object.prototype\<close> the join succeeds as the claim says
  (\<open>stale_nick_does_not_block\<close>).
\<close>

theorem join_room_constructor_throws:
  "onConnection (initial (\<lambda>w. OPEN)) 1 (Some ''constructor'') (Some ''ann'') 0 0 = Inl TypeError"
  by (simp add: onConnection_def Object_prototype_keys_def)

text \<open>
  Claim C6 fails as stated: the acknowledgment \<^verbatim>\<open>connected\<close> is the last event of a join, not
  the first. The first client of a new room receives, in this order, \<^verbatim>\<open>history\<close>,
  \<^verbatim>\<open>userList\<close>, \<^verbatim>\<open>typing\<close>, \<^verbatim>\<open>system\<close> and \<^verbatim>\<open>connected\<close>.
\<close>

theorem connected_sent_last:
  "(case onConnection (initial (\<lambda>w. OPEN)) 1 (Some ''lobby'') (Some ''ann'') 3 4 of
      Inl e \<Rightarrow> []
    | Inr st' \<Rightarrow> wire st') =
   [Send 1 (History []),
    Send 1 (UserList [''ann'']),
    Send 1 (Typing []),
    Send 1 (System ''ann joined the room'' 4),
    Send 1 (Connected ''Successfully connected to the room'')]"
  by (simp add: onConnection_def initial_def Object_prototype_keys_def Let_def
      cleanupUserConnections_def send_def broadcastUserList_def broadcastSystemMessage_def
      forEach_send_def recipients_def)

text \<open>
  Claim C6, amended. A successful join is a run of the connection handler that returns
  without closing the joining connection (both rejections end with \<^verbatim>\<open>ws.close\<close>). It
  registers the client at the end of the room's list and sends, in this order: the
  history snapshot to the joining connection, the user list to every open connection of
  the room, the typing snapshot to the joining connection, the join notice to every
  open connection of the room, and last the acknowledgment \<^verbatim>\<open>connected\<close> to the joining
  connection.
\<close>

theorem join_event_order:
  assumes "onConnection st w (Some r) (Some n) t_join t_sys = Inr st'"
    and "\<forall>code reason. last (wire st') \<noteq> Close w code reason"
  shows
    "rooms st' r =
       Some (cleaned st r n @ [\<lparr>ws = w, nick = n, roomId = r, joinedAt = t_join\<rparr>]) \<and>
     wire st' = wire st @
       [Send w (History (if rooms st r = None then []
                         else case messageBuffers st r of None \<Rightarrow> [] | Some h \<Rightarrow> h))] @
       map (\<lambda>x. Send x (UserList (map nick (cleaned st r n) @ [n])))
         (recipients st (cleaned st r n @ [\<lparr>ws = w, nick = n, roomId = r, joinedAt = t_join\<rparr>])) @
       [Send w (Typing (if rooms st r = None then []
                        else case typingUsers st r of None \<Rightarrow> [] | Some s \<Rightarrow> s))] @
       map (\<lambda>x. Send x (System (n @ '' joined the room'') t_sys))
         (recipients st (cleaned st r n @ [\<lparr>ws = w, nick = n, roomId = r, joinedAt = t_join\<rparr>])) @
       [Send w (Connected ''Successfully connected to the room'')]"
proof -
  have ne: "r \<noteq> [] \<and> n \<noteq> []"
  proof (rule ccontr)
    assume "\<not> (r \<noteq> [] \<and> n \<noteq> [])"
    with assms(1) have "st' = close st w 1008 ''Room and nick are required''"
      by (auto simp: onConnection_def)
    with assms(2) show False by simp
  qed
  with assms(1) have np: "r \<notin> set Object_prototype_keys"
    by (auto simp: onConnection_def split: if_splits)
  have f: "find (\<lambda>c. nick c = n \<and> readyState st (ws c) = OPEN) (cleaned st r n) = None"
  proof (rule ccontr)
    assume "find (\<lambda>c. nick c = n \<and> readyState st (ws c) = OPEN) (cleaned st r n) \<noteq> None"
    then obtain c where
      c: "find (\<lambda>c. nick c = n \<and> readyState st (ws c) = OPEN) (cleaned st r n) = Some c"
      by blast
    then have "cleaned st r n \<noteq> []" by auto
    then obtain cs where cs: "rooms st r = Some cs"
      by (auto simp: cleaned_def split: option.splits)
    from onConnection_taken [OF ne [THEN conjunct1] ne [THEN conjunct2] np c cs, of w t_join t_sys]
      assms(1)
    have "last (wire st') = Close w 1008 ''Nickname already taken''"
      by auto
    with assms(2) show False by simp
  qed
  from onConnection_join [OF ne [THEN conjunct1] ne [THEN conjunct2] np f, of w t_join t_sys]
    assms(1)
  have g: "rooms st' = (rooms st)(r \<mapsto> cleaned st r n @ [\<lparr>ws = w, nick = n, roomId = r, joinedAt = t_join\<rparr>])"
      "messageBuffers st' = (if rooms st r = None then (messageBuffers st)(r \<mapsto> []) else messageBuffers st)"
      "typingUsers st' = (if rooms st r = None then (typingUsers st)(r \<mapsto> []) else typingUsers st)"
    and w: "wire st' = wire st @
      [Send w (History (case messageBuffers st' r of None \<Rightarrow> [] | Some h \<Rightarrow> h))] @
      map (\<lambda>x. Send x (UserList (map nick (cleaned st r n) @ [n])))
        (recipients st (cleaned st r n @ [\<lparr>ws = w, nick = n, roomId = r, joinedAt = t_join\<rparr>])) @
      [Send w (Typing (case typingUsers st' r of None \<Rightarrow> [] | Some s \<Rightarrow> s))] @
      map (\<lambda>x. Send x (System (n @ '' joined the room'') t_sys))
        (recipients st (cleaned st r n @ [\<lparr>ws = w, nick = n, roomId = r, joinedAt = t_join\<rparr>])) @
      [Send w (Connected ''Successfully connected to the room'')]"
    by auto
  have h: "(case messageBuffers st' r of None \<Rightarrow> [] | Some h \<Rightarrow> h) =
      (if rooms st r = None then [] else case messageBuffers st r of None \<Rightarrow> [] | Some h \<Rightarrow> h)"
    by (simp add: g)
  have t: "(case typingUsers st' r of None \<Rightarrow> [] | Some s \<Rightarrow> s) =
      (if rooms st r = None then [] else case typingUsers st r of None \<Rightarrow> [] | Some s \<Rightarrow> s)"
    by (simp add: g)
  show ?thesis
    using g(1) w unfolding h t by simp
qed

theorem join_event_order_witness:
  "\<exists>st'. onConnection lobby 2 (Some ''lobby'') (Some ''bob'') 3 4 = Inr st' \<and>
     rooms st' ''lobby'' =
       Some [\<lparr>ws = 1, nick = ''ann'', roomId = ''lobby'', joinedAt = 0\<rparr>,
             \<lparr>ws = 2, nick = ''bob'', roomId = ''lobby'', joinedAt = 3\<rparr>] \<and>
     wire st' =
       [Send 2 (History []),
        Send 1 (UserList [''ann'', ''bob'']), Send 2 (UserList [''ann'', ''bob'']),
        Send 2 (Typing []),
        Send 1 (System ''bob joined the room'' 4), Send 2 (System ''bob joined the room'' 4),
        Send 2 (Connected ''Successfully connected to the room'')]"
proof -
  have "\<forall>c \<in> set (case rooms lobby ''lobby'' of None \<Rightarrow> [] | Some cs \<Rightarrow> cs).
      nick c = ''bob'' \<longrightarrow> readyState lobby (ws c) \<noteq> OPEN"
    by (simp add: lobby_def)
  from onConnection_join [OF _ _ _ find_cleaned_stale [OF this], of 2 3 4]
  obtain st' where st': "onConnection lobby 2 (Some ''lobby'') (Some ''bob'') 3 4 = Inr st'"
    and l: "last (wire st') = Send 2 (Connected ''Successfully connected to the room'')"
    by (auto simp: Object_prototype_keys_def)
  from l have "\<forall>code reason. last (wire st') \<noteq> Close 2 code reason"
    by simp
  from join_event_order [OF st' this] st' show ?thesis
    by (simp add: lobby_def cleaned_def recipients_def)
qed

subsection \<open>The claims about payloads\<close>

lemma set_set_add [simp]: "set (set_add x xs) = insert x (set xs)"
  by (auto simp: set_add_def)

lemma set_set_delete [simp]: "set (set_delete x xs) = set xs - {x}"
  by (auto simp: set_delete_def)

lemma typing_set_broadcastTypingStatus:
  "typing_set (broadcastTypingStatus st r u b) r' =
     (if r' = r then (if b then insert u (typing_set st r) else typing_set st r - {u})
      else typing_set st r')"
  by (auto simp: typing_set_def typing_after_def split: option.splits)

text \<open>Where the chat path throws. With the room in the store it throws before it writes.\<close>

lemma acceptMessage_fault_room:
  assumes "rooms st r = Some cs" "messageBuffers st r = Some h"
    and "acceptMessage st r n t now = (Some e, st')"
  shows "st' = st"
  using assms by (auto simp: acceptMessage_def Let_def split: option.splits if_splits)

text \<open>With the room gone it may throw after the sender has left a typing set that
  outlived the room; nothing else is written and nothing is sent.\<close>

lemma acceptMessage_fault_no_room:
  assumes "rooms st r = None" "messageBuffers st r = None"
    and "acceptMessage st r n t now = (Some e, st')"
  shows "rooms st' = rooms st \<and> messageBuffers st' = messageBuffers st \<and>
    readyState st' = readyState st \<and> wire st' = wire st \<and>
    (\<forall>r'. r' \<noteq> r \<longrightarrow> typingUsers st' r' = typingUsers st r')"
  using assms by (auto simp: acceptMessage_def Let_def split: option.splits if_splits)

lemma onMessage_try_fault_cases:
  assumes "onMessage_try rt st w r n data now = (Some e, st')"
  shows "st' = st \<or> (\<exists>t. acceptMessage st r n t now = (Some e, st'))"
  using assms
  by (auto simp: onMessage_try_def Let_def split: option.splits sum.splits bool.splits if_splits)

lemma onMessage_try_fault:
  assumes "store_ok st" "onMessage_try rt st w r n data now = (Some e, st')"
  shows "rooms st' = rooms st \<and> messageBuffers st' = messageBuffers st \<and>
    readyState st' = readyState st \<and> wire st' = wire st \<and>
    (\<forall>r'. r' \<noteq> r \<longrightarrow> typingUsers st' r' = typingUsers st r') \<and>
    (rooms st r \<noteq> None \<longrightarrow> st' = st)"
proof -
  from onMessage_try_fault_cases [OF assms(2)]
  consider "st' = st" | t where "acceptMessage st r n t now = (Some e, st')"
    by blast
  then show ?thesis
  proof cases
    case 1
    then show ?thesis by simp
  next
    case 2
    show ?thesis
    proof (cases "rooms st r")
      case None
      with assms(1) have "messageBuffers st r = None" by (simp add: store_ok_def)
      from acceptMessage_fault_no_room [OF None this 2] None show ?thesis by simp
    next
      case (Some cs)
      with assms(1) have "room_ok st r cs" by (simp add: store_ok_def)
      then obtain h where "messageBuffers st r = Some h"
        by (auto simp: room_ok_def split: option.splits)
      from acceptMessage_fault_room [OF Some this 2] show ?thesis by simp
    qed
  qed
qed

text \<open>
  Claim C9, at a store where the code departs from it. The store \<open>reaped\<close> is a store of a
  run: \<^verbatim>\<open>ann\<close> has joined \<^verbatim>\<open>lobby\<close>, her connection is no longer open, the periodic cleanup
  has reaped the room, and a typing payload of hers has re-created the typing set of
  \<^verbatim>\<open>lobby\<close>, which holds \<^verbatim>\<open>ann\<close>. The chat path tests \<^verbatim>\<open>typingUsers[roomId]\<close> before it uses
  it but not \<^verbatim>\<open>messageBuffers[roomId]\<close>: the chat line \<^verbatim>\<open>hi\<close> of \<^verbatim>\<open>ann\<close> takes her out of the
  typing set and only then throws, at \<^verbatim>\<open>messageBuffers[roomId].push\<close>. The handling of the
  payload raises an exception and the typing set has changed.
\<close>

theorem fault_after_typing_clear:
  "reachable example_rt reaped \<and>
   rooms reaped ''lobby'' = None \<and>
   typingUsers reaped ''lobby'' = Some [''ann''] \<and>
   fst (onMessage_try example_rt reaped 1 ''lobby'' ''ann'' ''hi'' 7) = Some TypeError \<and>
   typingUsers (onMessage example_rt reaped 1 ''lobby'' ''ann'' ''hi'' 7) ''lobby'' = Some []"
proof -
  have "rooms (initial (\<lambda>w. OPEN)) ''lobby'' = None"
    by (simp add: initial_def)
  from join_fresh_room [OF this, of "''ann''" 1 3 4]
  obtain st where j: "onConnection (initial (\<lambda>w. OPEN)) 1 (Some ''lobby'') (Some ''ann'') 3 4 = Inr st"
    and f: "rooms st ''lobby'' = Some [\<lparr>ws = 1, nick = ''ann'', roomId = ''lobby'', joinedAt = 3\<rparr>]"
    by (auto simp: Object_prototype_keys_def)
  have js: "joined = st"
    unfolding joined_def j by simp
  let ?closing = "joined\<lparr>readyState := (\<lambda>w. CLOSING)\<rparr>"
  let ?swept = "sweep ?closing [''lobby'']"
  have "reachable example_rt joined"
    unfolding js using reachable.connection [OF reachable.start j] .
  then have "reachable example_rt ?closing"
    by (rule reachable.transport)
  then have "reachable example_rt ?swept"
    by (rule reachable.cleanup)
  then have r: "reachable example_rt reaped"
    unfolding reaped_def by (rule reachable.message)
  have "filter (\<lambda>c. readyState ?closing (ws c) = OPEN)
      [\<lparr>ws = 1, nick = ''ann'', roomId = ''lobby'', joinedAt = 3\<rparr>] = []"
    by simp
  with sweep_room_none_open [of ?closing "''lobby''"
      "[\<lparr>ws = 1, nick = ''ann'', roomId = ''lobby'', joinedAt = 3\<rparr>]"] f
  have sw: "rooms ?swept ''lobby'' = None" "messageBuffers ?swept ''lobby'' = None"
    "typingUsers ?swept ''lobby'' = None"
    by (simp_all add: sweep_def js)
  have t: "trim ''{\"type\":\"typing\",\"isTyping\":true}'' = ''{\"type\":\"typing\",\"isTyping\":true}''"
    by (simp add: trim_def is_white_def)
  have "onMessage_try example_rt ?swept 1 ''lobby'' ''ann'' ''{\"type\":\"typing\",\"isTyping\":true}'' 5 =
      (None, broadcastTypingStatus ?swept ''lobby'' ''ann'' True)"
    by (rule onMessage_try_typing
        [where kvs = "[(''type'', JStr ''typing''), (''isTyping'', JBool True)]", simplified])
      (simp_all add: t example_rt_def example_parse_def)
  then have re: "reaped = broadcastTypingStatus ?swept ''lobby'' ''ann'' True"
    by (simp add: reaped_def onMessage_def)
  have a: "rooms reaped ''lobby'' = None"
    by (simp add: re sw)
  have b: "messageBuffers reaped ''lobby'' = None"
    by (simp add: re sw)
  have c: "typingUsers reaped ''lobby'' = Some [''ann'']"
    by (simp add: re sw typing_after_def set_add_def)
  have t2: "trim ''hi'' = ''hi''"
    by (simp add: trim_def is_white_def)
  have tr: "onMessage_try example_rt reaped 1 ''lobby'' ''ann'' ''hi'' 7 =
      acceptMessage reaped ''lobby'' ''ann'' (JStr ''hi'') 7"
    by (simp add: onMessage_try_plain t2 example_rt_def example_parse_def)
  have acc: "acceptMessage reaped ''lobby'' ''ann'' (JStr ''hi'') 7 =
      (Some TypeError,
       broadcastTypingStatus (reaped\<lparr>typingUsers := (typingUsers reaped)(''lobby'' \<mapsto> [])\<rparr>)
         ''lobby'' ''ann'' False)"
    by (simp add: acceptMessage_def Let_def a b c set_delete_def)
  have d: "fst (onMessage_try example_rt reaped 1 ''lobby'' ''ann'' ''hi'' 7) = Some TypeError"
    unfolding tr acc by simp
  have e: "typingUsers (onMessage example_rt reaped 1 ''lobby'' ''ann'' ''hi'' 7) ''lobby'' = Some []"
    unfolding onMessage_def tr acc by (simp add: typing_after_def set_delete_def)
  from r a c d e show ?thesis by blast
qed

text \<open>
  What a fault does otherwise. In a store that satisfies the invariant (every store of a
  run does): when the handling of a payload throws, exactly one event is sent, the error
  "Error processing message" to the sender, and the connection is not closed; the client
  lists and the histories of all rooms are unchanged and so are the typing sets of the
  other rooms; and when the room of the session is in the store, the store is left as it
  was but for that one event, so its typing set is unchanged too. The payload
  \<^verbatim>\<open>{"type":"message"}\<close>, which has no text, is such a payload.
\<close>

lemma processing_fault_answered:
  assumes "store_ok st" and "fst (onMessage_try rt st w r n data now) = Some e"
  shows
    "wire (onMessage rt st w r n data now) =
       wire st @ [Send w (Error ''Error processing message'')] \<and>
     rooms (onMessage rt st w r n data now) = rooms st \<and>
     messageBuffers (onMessage rt st w r n data now) = messageBuffers st \<and>
     readyState (onMessage rt st w r n data now) = readyState st \<and>
     (\<forall>r'. r' \<noteq> r \<longrightarrow> typingUsers (onMessage rt st w r n data now) r' = typingUsers st r') \<and>
     (rooms st r \<noteq> None \<longrightarrow>
        onMessage rt st w r n data now =
          st\<lparr>wire := wire st @ [Send w (Error ''Error processing message'')]\<rparr>)"
proof -
  obtain st' where t: "onMessage_try rt st w r n data now = (Some e, st')"
    using assms(2) by (cases "onMessage_try rt st w r n data now") simp
  then have o: "onMessage rt st w r n data now = send st' w (Error ''Error processing message'')"
    by (simp add: onMessage_def)
  from onMessage_try_fault [OF assms(1) t] show ?thesis
    unfolding o by (auto simp: send_def)
qed

lemma processing_fault_answered_example:
  "store_ok lobby \<and>
   fst (onMessage_try example_rt lobby 1 ''lobby'' ''ann'' ''{\"type\":\"message\"}'' 7) =
     Some TypeError \<and>
   onMessage example_rt lobby 1 ''lobby'' ''ann'' ''{\"type\":\"message\"}'' 7 =
     lobby\<lparr>wire := [Send 1 (Error ''Error processing message'')]\<rparr> \<and>
   fst (onMessage_try example_rt lobby 1 ''lobby'' ''ann''
          ''{\"type\":\"message\",\"text\":{\"toString\":1}}'' 7) = Some TypeError \<and>
   onMessage example_rt lobby 1 ''lobby'' ''ann''
       ''{\"type\":\"message\",\"text\":{\"toString\":1}}'' 7 =
     lobby\<lparr>wire := [Send 1 (Error ''Error processing message'')]\<rparr>"
proof -
  have ok: "store_ok lobby"
    by (simp add: store_ok_def room_ok_def lobby_def Object_prototype_keys_def MAX_MESSAGES_def)
  have room: "rooms lobby ''lobby'' \<noteq> None"
    by (simp add: lobby_def)
  have w: "wire lobby = []"
    by (simp add: lobby_def)
  have f: "fst (onMessage_try example_rt lobby 1 ''lobby'' ''ann'' ''{\"type\":\"message\"}'' 7) =
     Some TypeError"
    by (simp add: onMessage_try_def trim_def is_white_def example_rt_def example_parse_def)
  have g: "fst (onMessage_try example_rt lobby 1 ''lobby'' ''ann''
          ''{\"type\":\"message\",\"text\":{\"toString\":1}}'' 7) = Some TypeError"
    by (simp add: onMessage_try_def acceptMessage_def trim_def is_white_def example_rt_def
        example_parse_def)
  have a: "onMessage example_rt lobby 1 ''lobby'' ''ann'' ''{\"type\":\"message\"}'' 7 =
     lobby\<lparr>wire := [Send 1 (Error ''Error processing message'')]\<rparr>"
    using processing_fault_answered [OF ok f] room by (simp add: w)
  have b: "onMessage example_rt lobby 1 ''lobby'' ''ann''
       ''{\"type\":\"message\",\"text\":{\"toString\":1}}'' 7 =
     lobby\<lparr>wire := [Send 1 (Error ''Error processing message'')]\<rparr>"
    using processing_fault_answered [OF ok g] room by (simp add: w)
  from ok f a g b show ?thesis by blast
qed

text \<open>
  Claim C10. A typing payload is a JSON object whose \<^verbatim>\<open>type\<close> is \<^verbatim>\<open>typing\<close> (no other value
  has that property). When the connection registered as \<open>n\<close> in room \<open>r\<close> sends one, then
  afterwards \<open>n\<close> is in the typing set of \<open>r\<close> exactly when \<^verbatim>\<open>isTyping\<close> is truthy, every other
  identity is in it exactly when it was before, and the typing sets of the other rooms
  are unchanged, whatever else the payload holds.
\<close>

theorem typing_only_own_identity:
  assumes "trim data \<noteq> []" "JSON_parse rt (trim data) = Some (JObj kvs)"
    and "map_of kvs ''type'' = Some (JStr ''typing'')"
  shows "(n \<in> typing_set (onMessage rt st w r n data now) r \<longleftrightarrow>
            truthy (map_of kvs ''isTyping'')) \<and>
         (\<forall>u. u \<noteq> n \<longrightarrow>
            (u \<in> typing_set (onMessage rt st w r n data now) r \<longleftrightarrow> u \<in> typing_set st r)) \<and>
         (\<forall>r'. r' \<noteq> r \<longrightarrow>
            typingUsers (onMessage rt st w r n data now) r' = typingUsers st r')"
proof -
  have "onMessage rt st w r n data now =
      broadcastTypingStatus st r n (truthy (map_of kvs ''isTyping''))"
    by (simp add: onMessage_def onMessage_try_typing [OF assms])
  then show ?thesis
    by (simp add: typing_set_broadcastTypingStatus)
qed

theorem typing_only_own_identity_witness:
  "''ann'' \<in> typing_set
     (onMessage example_rt (lobby\<lparr>typingUsers := [''lobby'' \<mapsto> [''bob'']]\<rparr>) 1 ''lobby'' ''ann''
        ''{\"type\":\"typing\",\"isTyping\":true}'' 7) ''lobby'' \<and>
   ''bob'' \<in> typing_set
     (onMessage example_rt (lobby\<lparr>typingUsers := [''lobby'' \<mapsto> [''bob'']]\<rparr>) 1 ''lobby'' ''ann''
        ''{\"type\":\"typing\",\"isTyping\":true}'' 7) ''lobby'' \<and>
   ''eve'' \<notin> typing_set
     (onMessage example_rt (lobby\<lparr>typingUsers := [''lobby'' \<mapsto> [''bob'']]\<rparr>) 1 ''lobby'' ''ann''
        ''{\"type\":\"typing\",\"isTyping\":true}'' 7) ''lobby''"
proof -
  let ?data = "''{\"type\":\"typing\",\"isTyping\":true}''"
  let ?st = "lobby\<lparr>typingUsers := [''lobby'' \<mapsto> [''bob'']]\<rparr>"
  have t: "trim ?data = ?data"
    by (simp add: trim_def is_white_def)
  have p: "JSON_parse example_rt (trim ?data) =
      Some (JObj [(''type'', JStr ''typing''), (''isTyping'', JBool True)])"
    by (simp add: t example_rt_def example_parse_def)
  have ne: "trim ?data \<noteq> []"
    by (simp add: t)
  from typing_only_own_identity [OF ne p, of "''ann''" ?st 1 "''lobby''" 7]
  show ?thesis
    by (simp add: typing_set_def lobby_def)
qed

lemma trim_id:
  assumes "s \<noteq> []" "\<not> is_white (hd s)" "\<not> is_white (last s)"
  shows "trim s = s"
proof -
  from assms(1,2) have a: "dropWhile is_white s = s"
    by (cases s) simp_all
  from assms(1,3) have b: "dropWhile is_white (rev s) = rev s"
    by (cases "rev s") (simp_all add: last_rev [symmetric] hd_rev)
  show ?thesis
    by (simp add: trim_def a b)
qed

lemma example_parse_Some:
  "example_parse s \<noteq> None \<Longrightarrow>
   s = ''42'' \<or> s = ''{\"type\":\"typing\",\"isTyping\":true}'' \<or>
   s = ''{\"type\":\"message\"}'' \<or> s = ''{\"type\":\"message\",\"text\":\"\"}'' \<or>
   s = ''{\"type\":\"message\",\"text\":{\"toString\":1}}''"
proof (rule ccontr)
  assume "example_parse s \<noteq> None"
    and "\<not> (s = ''42'' \<or> s = ''{\"type\":\"typing\",\"isTyping\":true}'' \<or>
      s = ''{\"type\":\"message\"}'' \<or> s = ''{\"type\":\"message\",\"text\":\"\"}'' \<or>
      s = ''{\"type\":\"message\",\"text\":{\"toString\":1}}'')"
  then show False
    by (simp add: example_parse_def)
qed

lemma example_parse_long: "100 < length s \<Longrightarrow> example_parse s = None"
proof (rule ccontr)
  assume l: "100 < length s" and ne: "example_parse s \<noteq> None"
  from example_parse_Some [OF ne] l show False
    by (elim disjE) simp_all
qed

lemma accepted_try:
  assumes "accepted rt data t"
  shows "onMessage_try rt st w r n data now = acceptMessage st r n t now"
proof (cases "JSON_parse rt (trim data)")
  case None
  with assms show ?thesis
    by (simp add: accepted_def onMessage_try_plain)
next
  case (Some v)
  with assms obtain kvs where v: "v = JObj kvs"
    by (cases v) (simp_all add: accepted_def)
  with assms Some show ?thesis
    by (simp add: accepted_def onMessage_try_envelope)
qed

lemma accepted_onMessage:
  assumes "accepted rt data t"
    and "rooms st r = Some cs" "messageBuffers st r = Some h" "typingUsers st r = Some s"
  shows "onMessage rt st w r n data now =
    st\<lparr>typingUsers := (typingUsers st)(r \<mapsto> removeAll n s),
       messageBuffers := (messageBuffers st)(r \<mapsto>
         (if length h < 50
          then h @ [\<lparr>m_nick = n, m_text = t, m_timestamp = now\<rparr>]
          else tl h @ [\<lparr>m_nick = n, m_text = t, m_timestamp = now\<rparr>])),
       wire := wire st @
         map (\<lambda>x. Send x (Typing (removeAll n s))) (recipients st cs) @
         map (\<lambda>x. Send x (Message n t now)) (recipients st cs)\<rparr>"
proof -
  from assms(1) have "\<not> toString_throws t"
    by (auto simp: accepted_def split: option.splits json.splits)
  from acceptMessage_room [OF assms(2-4) this] show ?thesis
    by (simp add: onMessage_def accepted_try [OF assms(1)] push_message_eq)
qed

text \<open>A payload that parses and is neither of the two kinds of object: for \<^verbatim>\<open>null\<close> the
  read of \<^verbatim>\<open>type\<close> throws; for every other value neither branch is taken, and the
  handler returns with nothing written and nothing sent.\<close>

lemma onMessage_try_neither:
  assumes "trim data \<noteq> []" "JSON_parse rt (trim data) = Some v"
    and "get_prop v ''type'' \<noteq> Inr (Some (JStr ''typing''))"
    and "get_prop v ''type'' \<noteq> Inr (Some (JStr ''message''))"
  shows "onMessage_try rt st w r n data now =
    (if v = JNull then (Some TypeError, st) else (None, st))"
  using assms by (cases v) (simp_all add: onMessage_try_def)

text \<open>
  Claim C1, at an input where the code departs from it. The chat line \<^verbatim>\<open>42\<close> is not empty
  and is not a typing payload, so the claim sends it through the chat path. It is a JSON
  text, though, so \<^verbatim>\<open>JSON.parse\<close> returns the number 42 and the fallback to plain text is
  not taken; the \<^verbatim>\<open>type\<close> of a number is \<^verbatim>\<open>undefined\<close>, neither branch of the handler is
  taken, and the store is left exactly as it was: no history entry, no event, no error.
\<close>

theorem chat_line_42_discarded:
  "trim ''42'' \<noteq> [] \<and>
   JSON_parse example_rt (trim ''42'') = Some (JNum (Finite 42)) \<and>
   onMessage example_rt lobby 1 ''lobby'' ''ann'' ''42'' 7 = lobby"
  by (simp add: onMessage_def onMessage_try_def trim_def is_white_def example_rt_def
      example_parse_def)

text \<open>
  What the handler does with the payloads it does classify. Of the payloads that are
  not empty once trimmed: one that is no JSON text is chat text verbatim (the trimmed
  payload) and goes through the length check and then the chat path \<open>acceptMessage\<close>; a
  JSON object whose \<^verbatim>\<open>type\<close> is \<^verbatim>\<open>typing\<close> produces only a typing broadcast (client lists
  and histories are unchanged, and the events sent are \<^verbatim>\<open>typing\<close> events to the open
  connections of the room); a JSON object whose \<^verbatim>\<open>type\<close> is \<^verbatim>\<open>message\<close> and whose \<^verbatim>\<open>text\<close> is
  a string goes through the length check and the chat path with that string as its
  text.
\<close>

lemma payload_dispatch:
  assumes "trim data \<noteq> []"
  shows
    "(JSON_parse rt (trim data) = None \<longrightarrow>
        onMessage_try rt st w r n data now =
          (if 500 < length (trim data)
           then (None, send st w (Error ''Message too long (max 500 characters)''))
           else acceptMessage st r n (JStr (trim data)) now)) \<and>
     (\<forall>kvs. JSON_parse rt (trim data) = Some (JObj kvs) \<and>
            map_of kvs ''type'' = Some (JStr ''typing'') \<longrightarrow>
        onMessage_try rt st w r n data now =
          (None, broadcastTypingStatus st r n (truthy (map_of kvs ''isTyping''))) \<and>
        rooms (onMessage rt st w r n data now) = rooms st \<and>
        messageBuffers (onMessage rt st w r n data now) = messageBuffers st \<and>
        wire (onMessage rt st w r n data now) = wire st @
          (case rooms st r of
             None \<Rightarrow> []
           | Some cs \<Rightarrow>
               map (\<lambda>x. Send x (Typing (typing_after st r n (truthy (map_of kvs ''isTyping'')))))
                 (recipients st cs))) \<and>
     (\<forall>kvs t. JSON_parse rt (trim data) = Some (JObj kvs) \<and>
            map_of kvs ''type'' = Some (JStr ''message'') \<and>
            map_of kvs ''text'' = Some (JStr t) \<longrightarrow>
        onMessage_try rt st w r n data now =
          (if 500 < length t
           then (None, send st w (Error ''Message too long (max 500 characters)''))
           else acceptMessage st r n (JStr t) now))"
proof (intro conjI allI impI)
  assume "JSON_parse rt (trim data) = None"
  then show "onMessage_try rt st w r n data now =
          (if 500 < length (trim data)
           then (None, send st w (Error ''Message too long (max 500 characters)''))
           else acceptMessage st r n (JStr (trim data)) now)"
    using assms by (rule onMessage_try_plain [rotated])
next
  fix kvs
  assume a: "JSON_parse rt (trim data) = Some (JObj kvs) \<and>
            map_of kvs ''type'' = Some (JStr ''typing'')"
  then have t: "onMessage_try rt st w r n data now =
          (None, broadcastTypingStatus st r n (truthy (map_of kvs ''isTyping'')))"
    using assms by (simp add: onMessage_try_typing)
  then show "onMessage_try rt st w r n data now =
          (None, broadcastTypingStatus st r n (truthy (map_of kvs ''isTyping'')))" .
  from t show "rooms (onMessage rt st w r n data now) = rooms st"
    by (simp add: onMessage_def)
  from t show "messageBuffers (onMessage rt st w r n data now) = messageBuffers st"
    by (simp add: onMessage_def)
  from t show "wire (onMessage rt st w r n data now) = wire st @
          (case rooms st r of
             None \<Rightarrow> []
           | Some cs \<Rightarrow>
               map (\<lambda>x. Send x (Typing (typing_after st r n (truthy (map_of kvs ''isTyping'')))))
                 (recipients st cs))"
    by (simp add: onMessage_def)
next
  fix kvs t
  assume "JSON_parse rt (trim data) = Some (JObj kvs) \<and>
            map_of kvs ''type'' = Some (JStr ''message'') \<and>
            map_of kvs ''text'' = Some (JStr t)"
  then show "onMessage_try rt st w r n data now =
          (if 500 < length t
           then (None, send st w (Error ''Message too long (max 500 characters)''))
           else acceptMessage st r n (JStr t) now)"
    using assms by (simp add: onMessage_try_envelope)
qed

lemma payload_dispatch_example:
  "JSON_parse example_rt (trim ''  hello '') = None \<and>
   onMessage_try example_rt lobby 1 ''lobby'' ''ann'' ''  hello '' 7 =
     acceptMessage lobby ''lobby'' ''ann'' (JStr ''hello'') 7 \<and>
   onMessage_try example_rt lobby 1 ''lobby'' ''ann'' ''{\"type\":\"typing\",\"isTyping\":true}'' 7 =
     (None, broadcastTypingStatus lobby ''lobby'' ''ann'' True) \<and>
   wire (onMessage example_rt lobby 1 ''lobby'' ''ann'' ''{\"type\":\"typing\",\"isTyping\":true}'' 7) =
     [Send 1 (Typing [''ann''])] \<and>
   onMessage_try example_rt lobby 1 ''lobby'' ''ann'' ''{\"type\":\"message\",\"text\":\"\"}'' 7 =
     acceptMessage lobby ''lobby'' ''ann'' (JStr []) 7"
proof -
  have t1: "trim ''  hello '' = ''hello''"
    by (simp add: trim_def is_white_def)
  have p1: "JSON_parse example_rt (trim ''  hello '') = None"
    by (simp add: t1 example_rt_def example_parse_def)
  have t2: "trim ''{\"type\":\"typing\",\"isTyping\":true}'' = ''{\"type\":\"typing\",\"isTyping\":true}''"
    by (simp add: trim_def is_white_def)
  have p2: "JSON_parse example_rt (trim ''{\"type\":\"typing\",\"isTyping\":true}'') =
      Some (JObj [(''type'', JStr ''typing''), (''isTyping'', JBool True)])"
    by (simp add: t2 example_rt_def example_parse_def)
  have t3: "trim ''{\"type\":\"message\",\"text\":\"\"}'' = ''{\"type\":\"message\",\"text\":\"\"}''"
    by (simp add: trim_def is_white_def)
  have p3: "JSON_parse example_rt (trim ''{\"type\":\"message\",\"text\":\"\"}'') =
      Some (JObj [(''type'', JStr ''message''), (''text'', JStr [])])"
    by (simp add: t3 example_rt_def example_parse_def)
  have a: "onMessage_try example_rt lobby 1 ''lobby'' ''ann'' ''  hello '' 7 =
     acceptMessage lobby ''lobby'' ''ann'' (JStr ''hello'') 7"
    using payload_dispatch [of "''  hello ''" example_rt lobby 1 "''lobby''" "''ann''" 7] p1
    by (simp add: t1)
  have b: "onMessage_try example_rt lobby 1 ''lobby'' ''ann'' ''{\"type\":\"typing\",\"isTyping\":true}'' 7 =
     (None, broadcastTypingStatus lobby ''lobby'' ''ann'' True) \<and>
     wire (onMessage example_rt lobby 1 ''lobby'' ''ann'' ''{\"type\":\"typing\",\"isTyping\":true}'' 7) =
     [Send 1 (Typing [''ann''])]"
    using payload_dispatch [of "''{\"type\":\"typing\",\"isTyping\":true}''" example_rt lobby 1
        "''lobby''" "''ann''" 7] p2
    by (simp add: t2 lobby_def typing_after_def set_add_def recipients_def)
  have c: "onMessage_try example_rt lobby 1 ''lobby'' ''ann'' ''{\"type\":\"message\",\"text\":\"\"}'' 7 =
     acceptMessage lobby ''lobby'' ''ann'' (JStr []) 7"
    using payload_dispatch [of "''{\"type\":\"message\",\"text\":\"\"}''" example_rt lobby 1
        "''lobby''" "''ann''" 7] p3
    by (simp add: t3)
  show ?thesis using p1 a b c by (simp only: simp_thms)
qed

text \<open>
  Claim C2, at an input where the code departs from it. The chat payload
  \<^verbatim>\<open>{"type":"message","text":""}\<close> has the empty text, which the claim drops silently.
  The emptiness test of the handler is made on the whole payload, which is not empty,
  and the text of a JSON object only goes through the length check: a message with the
  empty text is appended to the history and broadcast.
\<close>

theorem empty_text_stored:
  "messageBuffers
     (onMessage example_rt lobby 1 ''lobby'' ''ann'' ''{\"type\":\"message\",\"text\":\"\"}'' 7)
     ''lobby'' = Some [\<lparr>m_nick = ''ann'', m_text = JStr [], m_timestamp = 7\<rparr>] \<and>
   wire (onMessage example_rt lobby 1 ''lobby'' ''ann'' ''{\"type\":\"message\",\"text\":\"\"}'' 7) =
     [Send 1 (Typing []), Send 1 (Message ''ann'' (JStr []) 7)]"
proof -
  have t: "trim ''{\"type\":\"message\",\"text\":\"\"}'' = ''{\"type\":\"message\",\"text\":\"\"}''"
    by (simp add: trim_def is_white_def)
  have "accepted example_rt ''{\"type\":\"message\",\"text\":\"\"}'' (JStr [])"
    by (simp add: accepted_def t example_rt_def example_parse_def)
  from accepted_onMessage [OF this, of lobby "''lobby''" _ "[]" "[]" 1 "''ann''" 7]
  show ?thesis
    by (simp add: lobby_def push_message_def MAX_MESSAGES_def recipients_def)
qed

text \<open>
  For the payloads that are no JSON text the validation is complete, for a connection
  whose room is in the store. A payload that is empty once trimmed leaves the store as
  it was: no error, no history entry, no event. A text of more than 500 code units once
  trimmed yields exactly one event, the error "Message too long (max 500 characters)"
  to the sender, and nothing else. A text of 1 to 500 code units once trimmed is
  appended to the history of the room as the trimmed text and broadcast.
\<close>

lemma plain_text_validated:
  assumes "rooms st r = Some cs" "messageBuffers st r = Some h" "typingUsers st r = Some s"
  shows
    "(trim data = [] \<longrightarrow> onMessage rt st w r n data now = st) \<and>
     (trim data \<noteq> [] \<and> JSON_parse rt (trim data) = None \<and> 500 < length (trim data) \<longrightarrow>
        onMessage rt st w r n data now =
          st\<lparr>wire := wire st @ [Send w (Error ''Message too long (max 500 characters)'')]\<rparr>) \<and>
     (trim data \<noteq> [] \<and> JSON_parse rt (trim data) = None \<and> length (trim data) \<le> 500 \<longrightarrow>
        onMessage rt st w r n data now =
          st\<lparr>typingUsers := (typingUsers st)(r \<mapsto> removeAll n s),
             messageBuffers := (messageBuffers st)(r \<mapsto>
               (if length h < 50
                then h @ [\<lparr>m_nick = n, m_text = JStr (trim data), m_timestamp = now\<rparr>]
                else tl h @ [\<lparr>m_nick = n, m_text = JStr (trim data), m_timestamp = now\<rparr>])),
             wire := wire st @
               map (\<lambda>x. Send x (Typing (removeAll n s))) (recipients st cs) @
               map (\<lambda>x. Send x (Message n (JStr (trim data)) now)) (recipients st cs)\<rparr>)"
proof (intro conjI impI)
  assume "trim data = []"
  then show "onMessage rt st w r n data now = st"
    by (simp add: onMessage_def onMessage_try_empty)
next
  assume "trim data \<noteq> [] \<and> JSON_parse rt (trim data) = None \<and> 500 < length (trim data)"
  then show "onMessage rt st w r n data now =
          st\<lparr>wire := wire st @ [Send w (Error ''Message too long (max 500 characters)'')]\<rparr>"
    by (simp add: onMessage_def onMessage_try_plain send_def)
next
  assume "trim data \<noteq> [] \<and> JSON_parse rt (trim data) = None \<and> length (trim data) \<le> 500"
  then have "accepted rt data (JStr (trim data))"
    by (simp add: accepted_def)
  then show "onMessage rt st w r n data now =
          st\<lparr>typingUsers := (typingUsers st)(r \<mapsto> removeAll n s),
             messageBuffers := (messageBuffers st)(r \<mapsto>
               (if length h < 50
                then h @ [\<lparr>m_nick = n, m_text = JStr (trim data), m_timestamp = now\<rparr>]
                else tl h @ [\<lparr>m_nick = n, m_text = JStr (trim data), m_timestamp = now\<rparr>])),
             wire := wire st @
               map (\<lambda>x. Send x (Typing (removeAll n s))) (recipients st cs) @
               map (\<lambda>x. Send x (Message n (JStr (trim data)) now)) (recipients st cs)\<rparr>"
    using assms by (rule accepted_onMessage)
qed

lemma plain_text_validated_example:
  "onMessage example_rt lobby 1 ''lobby'' ''ann'' ''   '' 7 = lobby \<and>
   onMessage example_rt lobby 1 ''lobby'' ''ann'' (replicate 501 (CHR ''a'')) 7 =
     lobby\<lparr>wire := [Send 1 (Error ''Message too long (max 500 characters)'')]\<rparr> \<and>
   messageBuffers (onMessage example_rt lobby 1 ''lobby'' ''ann'' (replicate 500 (CHR ''a'')) 7)
     ''lobby'' =
     Some [\<lparr>m_nick = ''ann'', m_text = JStr (replicate 500 (CHR ''a'')), m_timestamp = 7\<rparr>] \<and>
   wire (onMessage example_rt lobby 1 ''lobby'' ''ann'' (replicate 500 (CHR ''a'')) 7) =
     [Send 1 (Typing []), Send 1 (Message ''ann'' (JStr (replicate 500 (CHR ''a''))) 7)]"
proof -
  have room: "rooms lobby ''lobby'' =
      Some [\<lparr>ws = 1, nick = ''ann'', roomId = ''lobby'', joinedAt = 0\<rparr>]"
    "messageBuffers lobby ''lobby'' = Some []" "typingUsers lobby ''lobby'' = Some []"
    by (simp_all add: lobby_def)
  note inst = plain_text_validated [OF room, of _ example_rt 1 "''ann''" 7]
  have w: "\<not> is_white (CHR ''a'')"
    by (simp add: is_white_def)
  have t0: "trim ''   '' = []"
    by (simp add: trim_def is_white_def)
  have t1: "trim (replicate 501 (CHR ''a'')) = replicate 501 (CHR ''a'')"
    by (rule trim_id) (simp_all add: w hd_replicate last_replicate)
  have t2: "trim (replicate 500 (CHR ''a'')) = replicate 500 (CHR ''a'')"
    by (rule trim_id) (simp_all add: w hd_replicate last_replicate)
  have p1: "JSON_parse example_rt (replicate 501 (CHR ''a'')) = None"
    by (simp add: example_rt_def example_parse_long)
  have p2: "JSON_parse example_rt (replicate 500 (CHR ''a'')) = None"
    by (simp add: example_rt_def example_parse_long)
  have a: "onMessage example_rt lobby 1 ''lobby'' ''ann'' ''   '' 7 = lobby"
    using inst [of "''   ''"] t0 by simp
  have b: "onMessage example_rt lobby 1 ''lobby'' ''ann'' (replicate 501 (CHR ''a'')) 7 =
     lobby\<lparr>wire := [Send 1 (Error ''Message too long (max 500 characters)'')]\<rparr>"
    using inst [of "replicate 501 (CHR ''a'')"] p1 by (simp add: t1 lobby_def)
  have c: "onMessage example_rt lobby 1 ''lobby'' ''ann'' (replicate 500 (CHR ''a'')) 7 =
     lobby\<lparr>typingUsers := (typingUsers lobby)(''lobby'' \<mapsto> removeAll ''ann'' []),
             messageBuffers := (messageBuffers lobby)(''lobby'' \<mapsto>
               [\<lparr>m_nick = ''ann'', m_text = JStr (replicate 500 (CHR ''a'')), m_timestamp = 7\<rparr>]),
             wire := wire lobby @
               map (\<lambda>x. Send x (Typing (removeAll ''ann'' [])))
                 (recipients lobby [\<lparr>ws = 1, nick = ''ann'', roomId = ''lobby'', joinedAt = 0\<rparr>]) @
               map (\<lambda>x. Send x (Message ''ann'' (JStr (replicate 500 (CHR ''a''))) 7))
                 (recipients lobby [\<lparr>ws = 1, nick = ''ann'', roomId = ''lobby'', joinedAt = 0\<rparr>])\<rparr>"
    using inst [of "replicate 500 (CHR ''a'')"] p2 by (simp add: t2)
  have r: "recipients lobby [\<lparr>ws = 1, nick = ''ann'', roomId = ''lobby'', joinedAt = 0\<rparr>] = [1]"
    by (simp add: recipients_def lobby_def)
  show ?thesis
    unfolding c r using a b by (simp add: lobby_def)
qed


text \<open>A payload that is not accepted leaves every history as it was: \<open>accepted\<close> is
  exactly the condition under which the handler buffers a message.\<close>

lemma not_accepted_history:
  assumes "\<forall>t. \<not> accepted rt data t"
  shows "messageBuffers (onMessage rt st w r n data now) = messageBuffers st"
proof (cases "trim data = []")
  case True
  then show ?thesis by (simp add: onMessage_def onMessage_try_empty)
next
  case ne: False
  show ?thesis
  proof (cases "JSON_parse rt (trim data)")
    case None
    with assms ne have "500 < length (trim data)"
      by (auto simp: accepted_def)
    with None ne show ?thesis
      by (simp add: onMessage_def onMessage_try_plain)
  next
    case (Some v)
    have thr: "toString_throws t" if "v = JObj kvs" "map_of kvs ''type'' = Some (JStr ''message'')"
      "map_of kvs ''text'' = Some t" "length_gt_500 rt (Some t) = Inr False" for kvs t
      using assms that ne Some by (auto simp: accepted_def)
    show ?thesis
      using Some ne thr
      by (cases v)
        (auto simp: onMessage_def onMessage_try_def acceptMessage_def Let_def
          split: option.splits sum.splits bool.splits if_splits prod.splits)
  qed
qed



subsection \<open>The claim about empty rooms\<close>

lemma sweep_room_other:
  assumes "r' \<noteq> r"
  shows "rooms (sweep_room st r') r = rooms st r"
    "messageBuffers (sweep_room st r') r = messageBuffers st r"
    "typingUsers (sweep_room st r') r = typingUsers st r"
  using assms by (simp_all add: sweep_room_def Let_def split: option.splits)

lemma readyState_sweep_room [simp]: "readyState (sweep_room st r') = readyState st"
  by (simp add: sweep_room_def Let_def split: option.splits)

lemma sweep_absent:
  assumes "rooms st r = None" "messageBuffers st r = None" "typingUsers st r = None"
  shows "rooms (sweep st keys) r = None \<and> messageBuffers (sweep st keys) r = None \<and>
    typingUsers (sweep st keys) r = None"
  using assms unfolding sweep_def
proof (induction keys arbitrary: st)
  case Nil
  then show ?case by simp
next
  case (Cons k ks)
  have "rooms (sweep_room st k) r = None \<and> messageBuffers (sweep_room st k) r = None \<and>
      typingUsers (sweep_room st k) r = None"
    using Cons.prems by (cases "k = r") (simp_all add: sweep_room_no_room sweep_room_other)
  then show ?case
    using Cons.IH [of "sweep_room st k"] by simp
qed

lemma sweep_reaps:
  assumes "r \<in> set keys" "rooms st r = Some cs" "cs \<noteq> []"
    "\<forall>c \<in> set cs. readyState st (ws c) \<noteq> OPEN"
  shows "rooms (sweep st keys) r = None \<and> messageBuffers (sweep st keys) r = None \<and>
    typingUsers (sweep st keys) r = None"
  using assms
proof (induction keys arbitrary: st)
  case Nil
  then show ?case by simp
next
  case (Cons k ks)
  show ?case
  proof (cases "k = r")
    case True
    have none: "filter (\<lambda>c. readyState st (ws c) = OPEN) cs = []"
      using Cons.prems(4) by (simp add: filter_empty_conv)
    have "sweep (sweep_room st r) ks = sweep st (k # ks)"
      by (simp add: sweep_def True)
    moreover have "rooms (sweep (sweep_room st r) ks) r = None \<and>
        messageBuffers (sweep (sweep_room st r) ks) r = None \<and>
        typingUsers (sweep (sweep_room st r) ks) r = None"
      by (rule sweep_absent)
        (simp_all add: sweep_room_none_open [OF Cons.prems(2,3) none])
    ultimately show ?thesis by simp
  next
    case False
    with Cons.prems(1) have "r \<in> set ks" by simp
    moreover have "rooms (sweep_room st k) r = Some cs"
      using False Cons.prems(2) by (simp add: sweep_room_other)
    moreover have "\<forall>c \<in> set cs. readyState (sweep_room st k) (ws c) \<noteq> OPEN"
      using Cons.prems(4) by simp
    ultimately have "rooms (sweep (sweep_room st k) ks) r = None \<and>
        messageBuffers (sweep (sweep_room st k) ks) r = None \<and>
        typingUsers (sweep (sweep_room st k) ks) r = None"
      using Cons.prems(3) Cons.IH [of "sweep_room st k"] by blast
    then show ?thesis by (simp add: sweep_def)
  qed
qed

text \<open>
  Claim C8. In a store that satisfies the invariant, when the close of a connection
  leaves room \<open>r\<close> without clients, and when the periodic cleanup finds no open connection
  among the clients of \<open>r\<close>, the room, its history buffer and its typing set are removed
  from the three dictionaries. A join to \<open>r\<close> right after creates the room anew, with the
  joining client alone, an empty typing set and an empty history, and the first event
  the joining connection is sent is the empty history.
\<close>

theorem empty_room_destroyed:
  assumes "store_ok st" "rooms st r = Some cs"
  shows
    "(filter (\<lambda>c. ws c \<noteq> w) cs = [] \<longrightarrow>
        rooms (onClose st w r n now) r = None \<and>
        messageBuffers (onClose st w r n now) r = None \<and>
        typingUsers (onClose st w r n now) r = None \<and>
        (n' \<noteq> [] \<longrightarrow>
           (\<exists>st'. onConnection (onClose st w r n now) w' (Some r) (Some n') t_join t_sys = Inr st' \<and>
              rooms st' r = Some [\<lparr>ws = w', nick = n', roomId = r, joinedAt = t_join\<rparr>] \<and>
              messageBuffers st' r = Some [] \<and> typingUsers st' r = Some [] \<and>
              hd (drop (length (wire (onClose st w r n now))) (wire st')) =
                Send w' (History [])))) \<and>
     (r \<in> set keys \<and> (\<forall>c \<in> set cs. readyState st (ws c) \<noteq> OPEN) \<longrightarrow>
        rooms (sweep st keys) r = None \<and>
        messageBuffers (sweep st keys) r = None \<and>
        typingUsers (sweep st keys) r = None \<and>
        (n' \<noteq> [] \<longrightarrow>
           (\<exists>st'. onConnection (sweep st keys) w' (Some r) (Some n') t_join t_sys = Inr st' \<and>
              rooms st' r = Some [\<lparr>ws = w', nick = n', roomId = r, joinedAt = t_join\<rparr>] \<and>
              messageBuffers st' r = Some [] \<and> typingUsers st' r = Some [] \<and>
              hd (drop (length (wire (sweep st keys))) (wire st')) =
                Send w' (History []))))"
proof -
  from assms have ok: "room_ok st r cs" by (rule store_ok_room)
  then have r: "r \<noteq> []" "r \<notin> set Object_prototype_keys" and cs: "cs \<noteq> []"
    by (simp_all add: room_ok_def)
  have fresh: "\<exists>st'. onConnection st0 w' (Some r) (Some n') t_join t_sys = Inr st' \<and>
      rooms st' r = Some [\<lparr>ws = w', nick = n', roomId = r, joinedAt = t_join\<rparr>] \<and>
      messageBuffers st' r = Some [] \<and> typingUsers st' r = Some [] \<and>
      hd (drop (length (wire st0)) (wire st')) = Send w' (History [])"
    if "rooms st0 r = None" "n' \<noteq> []" for st0
    using join_fresh_room [OF that(1) r that(2), of w' t_join t_sys] by auto
  show ?thesis
  proof (intro conjI impI)
    assume last: "filter (\<lambda>c. ws c \<noteq> w) cs = []"
    show none: "rooms (onClose st w r n now) r = None"
      by (simp add: onClose_last [OF assms(2) last])
    show "messageBuffers (onClose st w r n now) r = None"
      by (simp add: onClose_last [OF assms(2) last])
    show "typingUsers (onClose st w r n now) r = None"
      by (simp add: onClose_last [OF assms(2) last])
    assume "n' \<noteq> []"
    with none show "\<exists>st'. onConnection (onClose st w r n now) w' (Some r) (Some n') t_join t_sys = Inr st' \<and>
              rooms st' r = Some [\<lparr>ws = w', nick = n', roomId = r, joinedAt = t_join\<rparr>] \<and>
              messageBuffers st' r = Some [] \<and> typingUsers st' r = Some [] \<and>
              hd (drop (length (wire (onClose st w r n now))) (wire st')) =
                Send w' (History [])"
      by (rule fresh)
  next
    assume "r \<in> set keys \<and> (\<forall>c \<in> set cs. readyState st (ws c) \<noteq> OPEN)"
    then have gone: "rooms (sweep st keys) r = None \<and> messageBuffers (sweep st keys) r = None \<and>
        typingUsers (sweep st keys) r = None"
      using sweep_reaps [of r keys st cs] assms(2) cs by blast
    then show none: "rooms (sweep st keys) r = None"
      and "messageBuffers (sweep st keys) r = None"
      and "typingUsers (sweep st keys) r = None"
      by simp_all
    assume "n' \<noteq> []"
    with none show "\<exists>st'. onConnection (sweep st keys) w' (Some r) (Some n') t_join t_sys = Inr st' \<and>
              rooms st' r = Some [\<lparr>ws = w', nick = n', roomId = r, joinedAt = t_join\<rparr>] \<and>
              messageBuffers st' r = Some [] \<and> typingUsers st' r = Some [] \<and>
              hd (drop (length (wire (sweep st keys))) (wire st')) =
                Send w' (History [])"
      by (rule fresh)
  qed
qed

theorem empty_room_destroyed_witness:
  "messageBuffers busy_lobby ''lobby'' =
     Some [\<lparr>m_nick = ''ann'', m_text = JStr ''hi'', m_timestamp = 5\<rparr>] \<and>
   rooms (onClose busy_lobby 1 ''lobby'' ''ann'' 8) ''lobby'' = None \<and>
   messageBuffers (onClose busy_lobby 1 ''lobby'' ''ann'' 8) ''lobby'' = None \<and>
   typingUsers (onClose busy_lobby 1 ''lobby'' ''ann'' 8) ''lobby'' = None \<and>
   (\<exists>st'. onConnection (onClose busy_lobby 1 ''lobby'' ''ann'' 8) 2 (Some ''lobby'') (Some ''bob'')
            9 10 = Inr st' \<and>
      rooms st' ''lobby'' = Some [\<lparr>ws = 2, nick = ''bob'', roomId = ''lobby'', joinedAt = 9\<rparr>] \<and>
      messageBuffers st' ''lobby'' = Some [] \<and> typingUsers st' ''lobby'' = Some [] \<and>
      hd (drop (length (wire (onClose busy_lobby 1 ''lobby'' ''ann'' 8))) (wire st')) =
        Send 2 (History [])) \<and>
   rooms (sweep (busy_lobby\<lparr>readyState := \<lambda>w. CLOSED\<rparr>) [''lobby'']) ''lobby'' = None \<and>
   messageBuffers (sweep (busy_lobby\<lparr>readyState := \<lambda>w. CLOSED\<rparr>) [''lobby'']) ''lobby'' = None \<and>
   typingUsers (sweep (busy_lobby\<lparr>readyState := \<lambda>w. CLOSED\<rparr>) [''lobby'']) ''lobby'' = None \<and>
   (\<exists>st'. onConnection (sweep (busy_lobby\<lparr>readyState := \<lambda>w. CLOSED\<rparr>) [''lobby'']) 2 (Some ''lobby'')
            (Some ''bob'') 9 10 = Inr st' \<and>
      rooms st' ''lobby'' = Some [\<lparr>ws = 2, nick = ''bob'', roomId = ''lobby'', joinedAt = 9\<rparr>] \<and>
      messageBuffers st' ''lobby'' = Some [] \<and> typingUsers st' ''lobby'' = Some [] \<and>
      hd (drop (length (wire (sweep (busy_lobby\<lparr>readyState := \<lambda>w. CLOSED\<rparr>) [''lobby''])))
            (wire st')) = Send 2 (History []))"
proof -
  have ok: "store_ok busy_lobby"
    by (simp add: store_ok_def room_ok_def busy_lobby_def lobby_def Object_prototype_keys_def
        MAX_MESSAGES_def)
  then have ok': "store_ok (busy_lobby\<lparr>readyState := \<lambda>w. CLOSED\<rparr>)"
    by (simp add: store_ok_readyState)
  have room: "rooms busy_lobby ''lobby'' =
      Some [\<lparr>ws = 1, nick = ''ann'', roomId = ''lobby'', joinedAt = 0\<rparr>]"
    by (simp add: busy_lobby_def lobby_def)
  then have room': "rooms (busy_lobby\<lparr>readyState := \<lambda>w. CLOSED\<rparr>) ''lobby'' =
      Some [\<lparr>ws = 1, nick = ''ann'', roomId = ''lobby'', joinedAt = 0\<rparr>]"
    by simp
  have h: "messageBuffers busy_lobby ''lobby'' =
     Some [\<lparr>m_nick = ''ann'', m_text = JStr ''hi'', m_timestamp = 5\<rparr>]"
    by (simp add: busy_lobby_def)
  from empty_room_destroyed [OF ok room, where w = 1 and n = "''ann''" and now = 8
      and n' = "''bob''" and w' = 2 and t_join = 9 and t_sys = 10 and keys = "[]"]
  have a: "rooms (onClose busy_lobby 1 ''lobby'' ''ann'' 8) ''lobby'' = None \<and>
   messageBuffers (onClose busy_lobby 1 ''lobby'' ''ann'' 8) ''lobby'' = None \<and>
   typingUsers (onClose busy_lobby 1 ''lobby'' ''ann'' 8) ''lobby'' = None \<and>
   (\<exists>st'. onConnection (onClose busy_lobby 1 ''lobby'' ''ann'' 8) 2 (Some ''lobby'') (Some ''bob'')
            9 10 = Inr st' \<and>
      rooms st' ''lobby'' = Some [\<lparr>ws = 2, nick = ''bob'', roomId = ''lobby'', joinedAt = 9\<rparr>] \<and>
      messageBuffers st' ''lobby'' = Some [] \<and> typingUsers st' ''lobby'' = Some [] \<and>
      hd (drop (length (wire (onClose busy_lobby 1 ''lobby'' ''ann'' 8))) (wire st')) =
        Send 2 (History []))"
    by simp
  from empty_room_destroyed [OF ok' room', where keys = "[''lobby'']" and w = 1 and n' = "''bob''"
      and w' = 2 and t_join = 9 and t_sys = 10]
  have b: "rooms (sweep (busy_lobby\<lparr>readyState := \<lambda>w. CLOSED\<rparr>) [''lobby'']) ''lobby'' = None \<and>
   messageBuffers (sweep (busy_lobby\<lparr>readyState := \<lambda>w. CLOSED\<rparr>) [''lobby'']) ''lobby'' = None \<and>
   typingUsers (sweep (busy_lobby\<lparr>readyState := \<lambda>w. CLOSED\<rparr>) [''lobby'']) ''lobby'' = None \<and>
   (\<exists>st'. onConnection (sweep (busy_lobby\<lparr>readyState := \<lambda>w. CLOSED\<rparr>) [''lobby'']) 2 (Some ''lobby'')
            (Some ''bob'') 9 10 = Inr st' \<and>
      rooms st' ''lobby'' = Some [\<lparr>ws = 2, nick = ''bob'', roomId = ''lobby'', joinedAt = 9\<rparr>] \<and>
      messageBuffers st' ''lobby'' = Some [] \<and> typingUsers st' ''lobby'' = Some [] \<and>
      hd (drop (length (wire (sweep (busy_lobby\<lparr>readyState := \<lambda>w. CLOSED\<rparr>) [''lobby''])))
            (wire st')) = Send 2 (History []))"
    by simp
  show ?thesis
    using h a b by (simp only: simp_thms)
qed

subsection \<open>The history buffer\<close>

text \<open>
  Claim C3. In every store of a run, the history buffer of every room holds at most 50
  messages. The buffer that results from appending the messages \<open>ms\<close> one after the other
  to the empty buffer is the last 50 of them, in their order: it never holds more than
  50, up to 50 appends keep every message, and the 51st append leaves the first message
  out and makes the second one first. For a single append: below capacity the message
  is added at the end and nothing is evicted; to a full buffer the result is the old
  buffer without its first entry, followed by the new message, so the old second entry
  is now first and the entries that stay keep their order.
\<close>

theorem history_bounded_fifo:
  "(\<forall>rt st r h'. reachable rt st \<and> messageBuffers st r = Some h' \<longrightarrow> length h' \<le> 50) \<and>
   foldl push_message [] ms = drop (length ms - 50) ms \<and>
   length (foldl push_message [] ms) \<le> 50 \<and>
   (length ms \<le> 50 \<longrightarrow> foldl push_message [] ms = ms) \<and>
   (length ms = 50 \<longrightarrow> foldl push_message [] (ms @ [m]) = tl ms @ [m]) \<and>
   (length h < 50 \<longrightarrow> push_message h m = h @ [m]) \<and>
   (length h \<le> 50 \<longrightarrow> length (push_message h m) \<le> 50) \<and>
   (length h = 50 \<longrightarrow>
      push_message h m = tl h @ [m] \<and>
      hd (push_message h m) = h ! 1 \<and>
      (\<forall>i < 49. push_message h m ! i = h ! Suc i) \<and>
      push_message h m ! 49 = m)"
proof (intro conjI impI allI)
  fix rt st r h'
  assume "reachable rt st \<and> messageBuffers st r = Some h'"
  then show "length h' \<le> 50"
    using reachable_history_bound [of rt st r h'] by (simp add: MAX_MESSAGES_def)
next
  show d: "foldl push_message [] ms = drop (length ms - 50) ms"
    using foldl_push_drop [of "[]" ms] by simp
  show "length (foldl push_message [] ms) \<le> 50"
    unfolding d by simp
  show "foldl push_message [] ms = ms" if "length ms \<le> 50"
    using that by (simp add: d)
  show "foldl push_message [] (ms @ [m]) = tl ms @ [m]" if "length ms = 50"
  proof -
    from that obtain a t where ms: "ms = a # t"
      by (cases ms) auto
    have "foldl push_message [] (ms @ [m]) = drop (length (ms @ [m]) - 50) (ms @ [m])"
      using foldl_push_drop [of "[]" "ms @ [m]"] by simp
    also have "\<dots> = tl ms @ [m]"
      using that by (simp add: ms)
    finally show ?thesis .
  qed
next
  assume "length h < 50"
  then show "push_message h m = h @ [m]"
    by (simp add: push_message_eq)
next
  assume "length h \<le> 50"
  then show "length (push_message h m) \<le> 50"
    using push_message_bound [of h m] by (simp add: MAX_MESSAGES_def)
next
  assume full: "length h = 50"
  then have eq: "push_message h m = tl h @ [m]"
    by (simp add: push_message_full MAX_MESSAGES_def)
  show "push_message h m = tl h @ [m]" by (fact eq)
  from full have len: "length (tl h) = 49" by simp
  from full obtain a b t where h: "h = a # b # t"
    by (cases h; cases "tl h") auto
  from eq h have "push_message h m = b # t @ [m]" by simp
  then show "hd (push_message h m) = h ! 1"
    by (simp add: h)
  show "push_message h m ! i = h ! Suc i" if "i < 49" for i
    using that full len by (simp add: eq nth_append nth_tl)
  show "push_message h m ! 49 = m"
    using len by (simp add: eq nth_append)
qed

theorem history_bounded_fifo_witness:
  "(\<exists>st. reachable example_rt st \<and> messageBuffers st ''lobby'' = Some [] \<and>
      length ([] :: message list) \<le> 50) \<and>
   length full_history = 50 \<and>
   foldl push_message [] full_history = full_history \<and>
   foldl push_message []
     (full_history @ [\<lparr>m_nick = ''ann'', m_text = JStr ''y'', m_timestamp = 50\<rparr>]) =
     tl full_history @ [\<lparr>m_nick = ''ann'', m_text = JStr ''y'', m_timestamp = 50\<rparr>] \<and>
   push_message [] \<lparr>m_nick = ''ann'', m_text = JStr ''y'', m_timestamp = 50\<rparr> =
     [\<lparr>m_nick = ''ann'', m_text = JStr ''y'', m_timestamp = 50\<rparr>] \<and>
   length (push_message full_history \<lparr>m_nick = ''ann'', m_text = JStr ''y'', m_timestamp = 50\<rparr>) \<le> 50 \<and>
   push_message full_history \<lparr>m_nick = ''ann'', m_text = JStr ''y'', m_timestamp = 50\<rparr> =
     tl full_history @ [\<lparr>m_nick = ''ann'', m_text = JStr ''y'', m_timestamp = 50\<rparr>] \<and>
   hd (push_message full_history \<lparr>m_nick = ''ann'', m_text = JStr ''y'', m_timestamp = 50\<rparr>) =
     full_history ! 1 \<and>
   push_message full_history \<lparr>m_nick = ''ann'', m_text = JStr ''y'', m_timestamp = 50\<rparr> ! 10 =
     full_history ! 11 \<and>
   push_message full_history \<lparr>m_nick = ''ann'', m_text = JStr ''y'', m_timestamp = 50\<rparr> ! 49 =
     \<lparr>m_nick = ''ann'', m_text = JStr ''y'', m_timestamp = 50\<rparr>"
proof -
  let ?m = "\<lparr>m_nick = ''ann'', m_text = JStr ''y'', m_timestamp = 50\<rparr>"
  note inst = history_bounded_fifo [where ms = full_history and m = ?m and h = full_history]
  note inst0 = history_bounded_fifo [where ms = "[]" and m = ?m and h = "[]"]
  have len: "length full_history = 50"
    by (simp add: full_history_def)
  then have len': "length full_history \<le> 50"
    by simp
  have len0: "length ([] :: message list) < 50"
    by simp
  from reachable_first_join [of example_rt]
  obtain st where st: "reachable example_rt st" "messageBuffers st ''lobby'' = Some []"
    by blast
  with inst have "length ([] :: message list) \<le> 50"
    by blast
  with st have a: "\<exists>st. reachable example_rt st \<and> messageBuffers st ''lobby'' = Some [] \<and>
      length ([] :: message list) \<le> 50"
    by blast
  have f1: "foldl push_message [] full_history = full_history"
    using len' inst by blast
  have f2: "foldl push_message [] (full_history @ [?m]) = tl full_history @ [?m]"
    using len inst by blast
  have p0: "push_message [] ?m = [] @ [?m]"
    using len0 inst0 by blast
  then have p0': "push_message [] ?m = [?m]"
    by simp
  have b: "length (push_message full_history ?m) \<le> 50 \<and>
        push_message full_history ?m = tl full_history @ [?m] \<and>
        hd (push_message full_history ?m) = full_history ! 1 \<and>
        push_message full_history ?m ! 49 = ?m"
    using len len' inst by blast
  have "(10::nat) < 49" by simp
  with len inst have c: "push_message full_history ?m ! 10 = full_history ! Suc 10"
    by blast
  have "Suc 10 = 11" by simp
  with c have c': "push_message full_history ?m ! 10 = full_history ! 11"
    by (simp only:)
  from a len f1 f2 p0' b c' show ?thesis by blast
qed

end
